theory Spec2Isabelle
  imports Main
begin

section \<open>Data model of \<^verbatim>\<open>internal/converter.go\<close>\<close>

text \<open>
  The converter walks Go's run-time type descriptors (\<^verbatim>\<open>reflect.Type\<close>). A descriptor
  answers \<^verbatim>\<open>Kind()\<close>, \<^verbatim>\<open>Elem()\<close>, \<^verbatim>\<open>NumField()\<close> and \<^verbatim>\<open>Field(i)\<close>; descriptors of
  recursive types point back at themselves, so the descriptors form a graph and not a
  tree. The graph is modelled as a table from type identities to descriptors. Two
  descriptors are the same Go type exactly when their identities are equal, which is what
  the \<^verbatim>\<open>visited\<close> map of the source keys on.
\<close>

text \<open>
  \<^verbatim>\<open>reflect.Kind\<close>. The kind \<^verbatim>\<open>reflect.Int\<close> is written \<open>IntKind\<close>, since \<open>Int\<close>
  is the ASCII notation of set intersection.
\<close>

datatype Kind = Invalid | Bool | IntKind | Int8 | Int16 | Int32 | Int64
  | Uint | Uint8 | Uint16 | Uint32 | Uint64 | Uintptr
  | Float32 | Float64 | Complex64 | Complex128
  | Array | Chan | Func | Interface | Map | Pointer | Slice | String | Struct
  | UnsafePointer

type_synonym Type = nat

text \<open>
  \<^verbatim>\<open>reflect.StructField\<close>, with the fields the converter reads. \<open>Tag\<close> holds the value
  of \<^verbatim>\<open>field.Tag.Get("json")\<close> (the empty string when the field has no json tag);
  \<open>PkgPath\<close> is empty exactly for exported fields.
\<close>

record StructField =
  Name :: string
  PkgPath :: string
  Type :: Type
  Tag :: string
  Anonymous :: bool

record rtype =
  Kind :: Kind
  Elem :: Type
  Fields :: "StructField list"

type_synonym universe = "Type \<Rightarrow> rtype"

text \<open>
  \<^verbatim>\<open>type Schema map[string]interface{}\<close>. The values the converter stores are strings,
  booleans, \<^verbatim>\<open>[]string\<close>, nested schemas and \<^verbatim>\<open>[]Schema\<close>; \<open>jvalue\<close> is the
  \<^verbatim>\<open>interface{}\<close> holding one of them.
\<close>

datatype jvalue = JString string | JBool bool | JStrings "string list"
  | JSchema "string \<Rightarrow> jvalue option" | JSchemas "(string \<Rightarrow> jvalue option) list"

type_synonym Schema = "string \<Rightarrow> jvalue option"

record Options =
  AllowAdditionalProperty :: bool
  MaxDepth :: int

definition DefaultOptions :: Options where
  "DefaultOptions = \<lparr>AllowAdditionalProperty = False, MaxDepth = 50\<rparr>"

text \<open>
  \<^verbatim>\<open>depth\<close> and \<^verbatim>\<open>MaxDepth\<close> are of Go's type \<^verbatim>\<open>int\<close>, taken as 64 bits wide: the
  integers from \<open>- 2 ^ 63\<close> to \<open>MaxInt64\<close>. \<open>wrap64\<close> is what the arithmetic of that
  type makes of a sum, so the \<^verbatim>\<open>depth+1\<close> of the source is \<open>wrap64 (depth + 1)\<close>: one more,
  and the smallest \<^verbatim>\<open>int\<close> after the largest.
\<close>

definition wrap64 :: "int \<Rightarrow> int" where
  "wrap64 x = (x + 2 ^ 63) mod 2 ^ 64 - 2 ^ 63"

definition MaxInt64 :: int where
  "MaxInt64 = 2 ^ 63 - 1"

text \<open>
  The two error values of the package, and the run-time panic that \<^verbatim>\<open>reflect\<close> raises
  when \<^verbatim>\<open>NumField\<close> is called on a type that is not a struct or \<^verbatim>\<open>Elem\<close> on a type that
  has no element type.
\<close>

datatype error = ErrUnsupportedType | ErrCircularRef | ReflectPanic

section \<open>Helper functions\<close>

text \<open>
  \<^verbatim>\<open>deref\<close> loops while the kind is \<^verbatim>\<open>Pointer\<close>. Go accepts \<^verbatim>\<open>type P *P\<close>, on which
  the loop never ends, so the loop is given fuel: \<open>None\<close> means that the fuel ran out
  before a non-pointer type was reached.
\<close>

fun deref :: "nat \<Rightarrow> universe \<Rightarrow> Type \<Rightarrow> Type option" where
  "deref 0 U t = (if Kind (U t) = Pointer then None else Some t)"
| "deref (Suc n) U t = (if Kind (U t) = Pointer then deref n U (Elem (U t)) else Some t)"

text \<open>
  \<^verbatim>\<open>strings.Split(s, sep)\<close> of the Go library for a one-byte separator: the pieces of
  \<open>s\<close> between the separators, at least one piece.
\<close>

fun Split :: "string \<Rightarrow> char \<Rightarrow> string list" where
  "Split [] sep = [[]]"
| "Split (c # s) sep =
     (if c = sep then [] # Split s sep
      else (case Split s sep of [] \<Rightarrow> [[c]] | p # ps \<Rightarrow> (c # p) # ps))"

text \<open>
  \<^verbatim>\<open>parseJSONTag\<close>. \<^verbatim>\<open>parts[0]\<close> exists because \<open>Split\<close> never returns the empty list
  (\<open>Split_not_Nil\<close> below); the loop over \<^verbatim>\<open>parts[1:]\<close> looks for \<^verbatim>\<open>"omitempty"\<close>.
\<close>

definition parseJSONTag :: "string \<Rightarrow> string \<Rightarrow> string \<times> bool" where
  "parseJSONTag fieldName tag =
     (if tag = '''' then (fieldName, False)
      else (case Split tag (CHR '','') of
              [] \<Rightarrow> (fieldName, False)
            | p # ps \<Rightarrow> (if p \<noteq> '''' then p else fieldName, ''omitempty'' \<in> set ps)))"

section \<open>The conversion\<close>

text \<open>
  \<^verbatim>\<open>JsonTypeOf\<close>, \<^verbatim>\<open>parseArrayItemType\<close> and \<^verbatim>\<open>structProperties\<close> call each other;
  \<open>structFields\<close> is the \<^verbatim>\<open>for\<close> loop of \<^verbatim>\<open>structProperties\<close> over the fields that are
  left, with \<^verbatim>\<open>props\<close> and \<^verbatim>\<open>required\<close> as built so far. The first argument is fuel
  that every call uses up (the loop itself uses none): the result \<open>None\<close> means that the
  fuel ran out, so a call of the source returns exactly when some fuel gives \<open>Some\<close>.

  \<^verbatim>\<open>visited\<close> is a \<^verbatim>\<open>map[reflect.Type]bool\<close> that the source only writes \<^verbatim>\<open>true\<close>
  into and deletes from; it is the set of the types mapped to \<^verbatim>\<open>true\<close>. It is shared
  by all calls, so every function returns it next to its result. The deferred
  \<^verbatim>\<open>delete(visited, t)\<close> runs on every return after it was registered.
\<close>

function (sequential) JsonTypeOf ::
    "nat \<Rightarrow> universe \<Rightarrow> Type \<Rightarrow> Type set \<Rightarrow> int \<Rightarrow> Options
      \<Rightarrow> ((error + jvalue) \<times> Type set) option"
  and parseArrayItemType ::
    "nat \<Rightarrow> universe \<Rightarrow> Type \<Rightarrow> Type set \<Rightarrow> int \<Rightarrow> Options
      \<Rightarrow> ((error + jvalue) \<times> Type set) option"
  and structProperties ::
    "nat \<Rightarrow> universe \<Rightarrow> Type \<Rightarrow> Type set \<Rightarrow> int \<Rightarrow> Options
      \<Rightarrow> ((error + Schema \<times> string list) \<times> Type set) option"
  and structFields ::
    "nat \<Rightarrow> universe \<Rightarrow> StructField list \<Rightarrow> Schema \<Rightarrow> string list \<Rightarrow> Type set \<Rightarrow> int
      \<Rightarrow> Options \<Rightarrow> ((error + Schema \<times> string list) \<times> Type set) option"
where
  "JsonTypeOf 0 U t visited depth opts = None"
| "JsonTypeOf (Suc n) U t visited depth opts =
    (if depth > MaxDepth opts then Some (Inl ErrCircularRef, visited)
     else
      (case deref n U t of
         None \<Rightarrow> None
       | Some t' \<Rightarrow>
          (if Kind (U t') = Struct \<and> t' \<in> visited then Some (Inl ErrCircularRef, visited)
           else
            (case
               (if Kind (U t') = String then
                  Some (Inr (JString ''string''), visited)
                else if Kind (U t') = Bool then
                  Some (Inr (JString ''boolean''), visited)
                else if Kind (U t') \<in> {IntKind, Int8, Int16, Int32, Int64,
                                       Uint, Uint8, Uint16, Uint32, Uint64} then
                  Some (Inr (JString ''integer''), visited)
                else if Kind (U t') \<in> {Float32, Float64} then
                  Some (Inr (JString ''number''), visited)
                else if Kind (U t') \<in> {Slice, Array} then
                  (case parseArrayItemType n U t' visited (wrap64 (depth + 1)) opts of
                     None \<Rightarrow> None
                   | Some (Inl err, visited') \<Rightarrow> Some (Inl err, visited')
                   | Some (Inr items, visited') \<Rightarrow>
                       Some (Inr (JSchema [''type'' \<mapsto> JString ''array'', ''items'' \<mapsto> items]),
                             visited'))
                else if Kind (U t') = Struct then
                  (case structProperties n U t' (insert t' visited) (wrap64 (depth + 1)) opts of
                     None \<Rightarrow> None
                   | Some (Inl err, visited') \<Rightarrow> Some (Inl err, visited')
                   | Some (Inr (props, required), visited') \<Rightarrow>
                       Some (Inr (JSchema
                          (if length required > 0 then
                             [''type'' \<mapsto> JString ''object'',
                              ''properties'' \<mapsto> JSchema props,
                              ''additionalProperties'' \<mapsto> JBool (AllowAdditionalProperty opts),
                              ''required'' \<mapsto> JStrings required]
                           else
                             [''type'' \<mapsto> JString ''object'',
                              ''properties'' \<mapsto> JSchema props,
                              ''additionalProperties'' \<mapsto> JBool (AllowAdditionalProperty opts)])),
                          visited'))
                else Some (Inl ErrUnsupportedType, visited))
             of
               None \<Rightarrow> None
             | Some (res, visited') \<Rightarrow>
                 Some (res, if Kind (U t') = Struct then visited' - {t'} else visited')))))"
| "parseArrayItemType 0 U t visited depth opts = None"
| "parseArrayItemType (Suc n) U t visited depth opts =
    (if Kind (U t) \<notin> {Array, Chan, Map, Pointer, Slice} then Some (Inl ReflectPanic, visited)
     else
      (case JsonTypeOf n U (Elem (U t)) visited depth opts of
         None \<Rightarrow> None
       | Some (Inl err, visited') \<Rightarrow> Some (Inl err, visited')
       | Some (Inr schema, visited') \<Rightarrow>
           (case schema of
              JString s \<Rightarrow> Some (Inr (JSchema [''type'' \<mapsto> JString s]), visited')
            | JSchema s \<Rightarrow> Some (Inr (JSchema s), visited')
            | _ \<Rightarrow> Some (Inr schema, visited'))))"
| "structProperties 0 U t visited depth opts = None"
| "structProperties (Suc n) U t visited depth opts =
    (if Kind (U t) \<noteq> Struct then Some (Inl ReflectPanic, visited)
     else structFields n U (Fields (U t)) Map.empty [] visited depth opts)"
| "structFields n U [] props required visited depth opts =
    Some (Inr (props, required), visited)"
| "structFields n U (field # rest) props required visited depth opts =
    (if PkgPath field \<noteq> '''' then structFields n U rest props required visited depth opts
     else if Anonymous field then
      (case n of
         0 \<Rightarrow> None
       | Suc m \<Rightarrow>
          (case structProperties m U (Type field) visited depth opts of
             None \<Rightarrow> None
           | Some (Inl err, visited') \<Rightarrow> Some (Inl err, visited')
           | Some (Inr (embeddedProps, embeddedRequired), visited') \<Rightarrow>
               structFields n U rest (props ++ embeddedProps) (required @ embeddedRequired)
                 visited' depth opts))
     else if Tag field = ''-'' then structFields n U rest props required visited depth opts
     else
      (case parseJSONTag (Name field) (Tag field) of
         (fieldName, isOptional) \<Rightarrow>
          (case n of
             0 \<Rightarrow> None
           | Suc m \<Rightarrow>
              (case JsonTypeOf m U (Type field) visited depth opts of
                 None \<Rightarrow> None
               | Some (Inl err, visited') \<Rightarrow> Some (Inl err, visited')
               | Some (Inr fieldSchema, visited') \<Rightarrow>
                   structFields n U rest
                     (props(fieldName \<mapsto>
                        (case fieldSchema of
                           JString v \<Rightarrow>
                             (if isOptional then JSchema [''type'' \<mapsto> JStrings [v, ''null'']]
                              else JSchema [''type'' \<mapsto> JString v])
                         | JSchema v \<Rightarrow>
                             (if isOptional then
                                JSchema [''anyOf'' \<mapsto> JSchemas [v, [''type'' \<mapsto> JString ''null'']]]
                              else JSchema v)
                         | _ \<Rightarrow> fieldSchema)))
                     (required @ [fieldName]) visited' depth opts))))"

  by pat_completeness auto

text \<open>
  Every call takes fuel away, and the loop goes on with the same fuel and one field less.
\<close>

termination
  by (relation "inv_image (less_than <*lex*> less_than)
        (\<lambda>x. case x of
           Inl (Inl (n, U, t, r)) \<Rightarrow> (n, 0)
         | Inl (Inr (n, U, t, r)) \<Rightarrow> (n, 0)
         | Inr (Inl (n, U, t, r)) \<Rightarrow> (n, 0)
         | Inr (Inr (n, U, fs, r)) \<Rightarrow> (n, length fs))")
     auto

text \<open>
  What the \<^verbatim>\<open>switch\<close> of \<^verbatim>\<open>JsonTypeOf\<close> returns for a kind that is neither a
  sequence nor a struct, read off its cases; it is used to state the lemmas below.
\<close>

definition leaf_result :: "Kind \<Rightarrow> error + jvalue" where
  "leaf_result k =
     (if k = String then Inr (JString ''string'')
      else if k = Bool then Inr (JString ''boolean'')
      else if k \<in> {IntKind, Int8, Int16, Int32, Int64, Uint, Uint8, Uint16, Uint32, Uint64}
        then Inr (JString ''integer'')
      else if k \<in> {Float32, Float64} then Inr (JString ''number'')
      else Inl ErrUnsupportedType)"

text \<open>\<open>deeper opts opts'\<close>: the options differ at most by a larger \<^verbatim>\<open>MaxDepth\<close>.\<close>

definition deeper :: "Options \<Rightarrow> Options \<Rightarrow> bool" where
  "deeper opts opts' \<longleftrightarrow>
     MaxDepth opts \<le> MaxDepth opts'
     \<and> AllowAdditionalProperty opts' = AllowAdditionalProperty opts"

text \<open>
  Shorthands for stating facts about the loop: \<open>and_then\<close> and \<open>and_then_value\<close> go
  on with a successful result and pass an error or a missing result through, as the
  \<^verbatim>\<open>if err != nil { return nil, nil, err }\<close> of the source does; \<open>fieldProperty\<close> is
  the value that the type switch of \<^verbatim>\<open>structProperties\<close> stores under the field's name.
\<close>

definition and_then ::
  "((error + Schema \<times> string list) \<times> Type set) option
   \<Rightarrow> (Schema \<Rightarrow> string list \<Rightarrow> Type set \<Rightarrow> ((error + Schema \<times> string list) \<times> Type set) option)
   \<Rightarrow> ((error + Schema \<times> string list) \<times> Type set) option" where
  "and_then r k =
     (case r of
        None \<Rightarrow> None
      | Some (Inl err, visited') \<Rightarrow> Some (Inl err, visited')
      | Some (Inr (props, required), visited') \<Rightarrow> k props required visited')"

definition and_then_value ::
  "((error + jvalue) \<times> Type set) option
   \<Rightarrow> (jvalue \<Rightarrow> Type set \<Rightarrow> ((error + Schema \<times> string list) \<times> Type set) option)
   \<Rightarrow> ((error + Schema \<times> string list) \<times> Type set) option" where
  "and_then_value r k =
     (case r of
        None \<Rightarrow> None
      | Some (Inl err, visited') \<Rightarrow> Some (Inl err, visited')
      | Some (Inr fieldSchema, visited') \<Rightarrow> k fieldSchema visited')"

definition fieldProperty :: "bool \<Rightarrow> jvalue \<Rightarrow> jvalue" where
  "fieldProperty isOptional fieldSchema =
     (case fieldSchema of
        JString v \<Rightarrow>
          (if isOptional then JSchema [''type'' \<mapsto> JStrings [v, ''null'']]
           else JSchema [''type'' \<mapsto> JString v])
      | JSchema v \<Rightarrow>
          (if isOptional then
             JSchema [''anyOf'' \<mapsto> JSchemas [v, [''type'' \<mapsto> JString ''null'']]]
           else JSchema v)
      | _ \<Rightarrow> fieldSchema)"

section \<open>Example types\<close>

text \<open>
  Descriptors of Go types used as concrete inputs below. Type \<open>5\<close> is \<^verbatim>\<open>Node\<close> and
  \<open>7\<close>, \<open>8\<close> are \<^verbatim>\<open>BaseInfo\<close> and \<^verbatim>\<open>ExtendedInfo\<close> of \<^verbatim>\<open>internal/fixtures.go\<close>;
  type \<open>12\<close> embeds a struct type whose name is not exported; \<open>fuel\<close> is more than any
  of the examples needs. In \<open>pointer_cycle\<close>, type \<open>2\<close> is \<^verbatim>\<open>type P *P\<close> and type \<open>3\<close>
  is \<^verbatim>\<open>struct { P P `json:"p"` }\<close>. In \<open>slice_cycle\<close>, type \<open>2\<close> is \<^verbatim>\<open>type S []S\<close>;
  \<open>MaxInt64Options\<close> are the default options with the largest \<^verbatim>\<open>MaxDepth\<close> there is.
\<close>

definition basic :: "Kind \<Rightarrow> rtype" where
  "basic k = \<lparr>Kind = k, Elem = 0, Fields = []\<rparr>"

definition elemType :: "Kind \<Rightarrow> Type \<Rightarrow> rtype" where
  "elemType k e = \<lparr>Kind = k, Elem = e, Fields = []\<rparr>"

definition structType :: "StructField list \<Rightarrow> rtype" where
  "structType fs = \<lparr>Kind = Struct, Elem = 0, Fields = fs\<rparr>"

definition named :: "string \<Rightarrow> Type \<Rightarrow> string \<Rightarrow> StructField" where
  "named name t tag = \<lparr>Name = name, PkgPath = '''', Type = t, Tag = tag, Anonymous = False\<rparr>"

definition embedded :: "string \<Rightarrow> string \<Rightarrow> Type \<Rightarrow> StructField" where
  "embedded name pkg t = \<lparr>Name = name, PkgPath = pkg, Type = t, Tag = '''', Anonymous = True\<rparr>"

definition fixtures :: universe where
  "fixtures t =
     (if t = 0 then basic String
      else if t = 1 then basic IntKind
      else if t = 2 then basic Bool
      else if t = 3 then basic Float64
      else if t = 4 then elemType Map 0
      else if t = 5 then structType [named ''Value'' 0 ''value'', named ''Next'' 6 ''next,omitempty'']
      else if t = 6 then elemType Pointer 5
      else if t = 7 then structType [named ''ID'' 1 ''id'', named ''CreatedAt'' 0 ''created_at'']
      else if t = 8 then structType [embedded ''BaseInfo'' '''' 7, named ''Title'' 0 ''title'',
                                     named ''Content'' 0 ''content,omitempty'']
      else if t = 9 then elemType Slice 4
      else if t = 11 then structType [embedded ''BaseInfo'' '''' 7, named ''ID'' 0 ''id'']
      else if t = 12 then structType [embedded ''baseInfo'' ''internal'' 7, named ''Title'' 0 ''title'']
      else if t = 13 then structType [named ''Secret'' 0 ''-,omitempty'']
      else if t = 14 then structType [named ''Name'' 0 ''name'', named ''Cache'' 4 ''-'']
      else if t = 15 then structType [named ''Value'' 0 ''value'', named ''Next'' 16 ''-'']
      else if t = 16 then elemType Pointer 15
      else if t = 17 then structType [named ''First'' 7 ''first'', named ''Second'' 7 ''second'']
      else if t = 18 then structType [named ''Inner'' 19 ''inner'']
      else if t = 19 then structType [named ''Value'' 0 ''value'']
      else if t = 20 then elemType Slice 21
      else if t = 21 then elemType Slice 1
      else if t = 23 then structType [named ''Name'' 0 ''name'']
      else if t = 24 then structType [named ''Tags'' 25 ''tags,omitempty'']
      else if t = 25 then elemType Slice 0
      else basic Invalid)"

definition pointer_cycle :: universe where
  "pointer_cycle t =
     (if t = 2 then elemType Pointer 2
      else if t = 3 then structType [named ''P'' 2 ''p'']
      else basic Invalid)"

definition slice_cycle :: universe where
  "slice_cycle t = (if t = 2 then elemType Slice 2 else basic Invalid)"

definition MaxInt64Options :: Options where
  "MaxInt64Options = \<lparr>AllowAdditionalProperty = False, MaxDepth = MaxInt64\<rparr>"

definition fuel :: nat where
  "fuel = Suc (Suc (Suc (Suc (Suc (Suc (Suc (Suc (Suc (Suc 0)))))))))"

section \<open>Basic facts\<close>

lemma wrap64_id: "- (2 ^ 63) \<le> x \<Longrightarrow> x < 2 ^ 63 \<Longrightarrow> wrap64 x = x"
  unfolding wrap64_def by simp

lemma wrap64_range: "- (2 ^ 63) \<le> wrap64 x \<and> wrap64 x < 2 ^ 63"
proof -
  have "0 \<le> (x + 2 ^ 63) mod (2 ^ 64 :: int)" "(x + 2 ^ 63) mod (2 ^ 64 :: int) < 2 ^ 64"
    by simp_all
  then show ?thesis unfolding wrap64_def by simp
qed

lemma wrap64_MaxInt64: "wrap64 (MaxInt64 + 1) = - (2 ^ 63)"
  unfolding wrap64_def MaxInt64_def by simp

lemma Kind_classes:
  "k = String \<or> k = Bool
   \<or> k \<in> {IntKind, Int8, Int16, Int32, Int64, Uint, Uint8, Uint16, Uint32, Uint64}
   \<or> k \<in> {Float32, Float64} \<or> k \<in> {Slice, Array} \<or> k = Struct
   \<or> k \<in> {Invalid, Uintptr, Complex64, Complex128, Chan, Func, Interface, Map, Pointer,
          UnsafePointer}"
  by (cases k) simp_all

lemma deref_not_Pointer: "deref n U t = Some t' \<Longrightarrow> Kind (U t') \<noteq> Pointer"
  by (induction n arbitrary: t) (auto split: if_splits)

lemma deref_no_Pointer: "Kind (U t) \<noteq> Pointer \<Longrightarrow> deref n U t = Some t"
  by (cases n) auto

lemma deref_mono: "deref n U t = Some t' \<Longrightarrow> n \<le> m \<Longrightarrow> deref m U t = Some t'"
proof (induction n arbitrary: t m)
  case 0
  then show ?case by (cases m) (auto split: if_splits)
next
  case (Suc n)
  then show ?case by (cases m) (auto split: if_splits)
qed

lemma JsonTypeOf_depth:
  "MaxDepth opts < depth \<Longrightarrow>
   JsonTypeOf (Suc n) U t visited depth opts = Some (Inl ErrCircularRef, visited)"
  by simp

lemma JsonTypeOf_deref_None:
  "\<not> MaxDepth opts < depth \<Longrightarrow> deref n U t = None \<Longrightarrow>
   JsonTypeOf (Suc n) U t visited depth opts = None"
  by simp

lemma JsonTypeOf_visited:
  "\<not> MaxDepth opts < depth \<Longrightarrow> deref n U t = Some t' \<Longrightarrow> Kind (U t') = Struct \<Longrightarrow>
   t' \<in> visited \<Longrightarrow>
   JsonTypeOf (Suc n) U t visited depth opts = Some (Inl ErrCircularRef, visited)"
  by simp

lemma JsonTypeOf_String:
  "\<not> MaxDepth opts < depth \<Longrightarrow> deref n U t = Some t' \<Longrightarrow> Kind (U t') = String \<Longrightarrow>
   JsonTypeOf (Suc n) U t visited depth opts = Some (Inr (JString ''string''), visited)"
  by simp

lemma JsonTypeOf_Bool:
  "\<not> MaxDepth opts < depth \<Longrightarrow> deref n U t = Some t' \<Longrightarrow> Kind (U t') = Bool \<Longrightarrow>
   JsonTypeOf (Suc n) U t visited depth opts = Some (Inr (JString ''boolean''), visited)"
  by simp

lemma JsonTypeOf_integer:
  "\<not> MaxDepth opts < depth \<Longrightarrow> deref n U t = Some t' \<Longrightarrow>
   Kind (U t') \<in> {IntKind, Int8, Int16, Int32, Int64, Uint, Uint8, Uint16, Uint32, Uint64} \<Longrightarrow>
   JsonTypeOf (Suc n) U t visited depth opts = Some (Inr (JString ''integer''), visited)"
  by auto

lemma JsonTypeOf_number:
  "\<not> MaxDepth opts < depth \<Longrightarrow> deref n U t = Some t' \<Longrightarrow>
   Kind (U t') \<in> {Float32, Float64} \<Longrightarrow>
   JsonTypeOf (Suc n) U t visited depth opts = Some (Inr (JString ''number''), visited)"
  by auto

lemma JsonTypeOf_unsupported:
  "\<not> MaxDepth opts < depth \<Longrightarrow> deref n U t = Some t' \<Longrightarrow>
   Kind (U t') \<in> {Invalid, Uintptr, Complex64, Complex128, Chan, Func, Interface, Map,
                  Pointer, UnsafePointer} \<Longrightarrow>
   JsonTypeOf (Suc n) U t visited depth opts = Some (Inl ErrUnsupportedType, visited)"
  by auto

lemma JsonTypeOf_array:
  "\<not> MaxDepth opts < depth \<Longrightarrow> deref n U t = Some t' \<Longrightarrow>
   Kind (U t') \<in> {Slice, Array} \<Longrightarrow>
   JsonTypeOf (Suc n) U t visited depth opts =
     (case parseArrayItemType n U t' visited (wrap64 (depth + 1)) opts of
        None \<Rightarrow> None
      | Some (Inl err, visited') \<Rightarrow> Some (Inl err, visited')
      | Some (Inr items, visited') \<Rightarrow>
          Some (Inr (JSchema [''type'' \<mapsto> JString ''array'', ''items'' \<mapsto> items]), visited'))"
  by (auto split: option.splits sum.splits prod.splits)

lemma JsonTypeOf_Struct:
  "\<not> MaxDepth opts < depth \<Longrightarrow> deref n U t = Some t' \<Longrightarrow> Kind (U t') = Struct \<Longrightarrow>
   t' \<notin> visited \<Longrightarrow>
   JsonTypeOf (Suc n) U t visited depth opts =
     (case structProperties n U t' (insert t' visited) (wrap64 (depth + 1)) opts of
        None \<Rightarrow> None
      | Some (Inl err, visited') \<Rightarrow> Some (Inl err, visited' - {t'})
      | Some (Inr (props, required), visited') \<Rightarrow>
          Some (Inr (JSchema
             (if length required > 0 then
                [''type'' \<mapsto> JString ''object'',
                 ''properties'' \<mapsto> JSchema props,
                 ''additionalProperties'' \<mapsto> JBool (AllowAdditionalProperty opts),
                 ''required'' \<mapsto> JStrings required]
              else
                [''type'' \<mapsto> JString ''object'',
                 ''properties'' \<mapsto> JSchema props,
                 ''additionalProperties'' \<mapsto> JBool (AllowAdditionalProperty opts)])),
             visited' - {t'}))"
  by (simp split: option.splits sum.splits prod.splits)


lemma Split_not_Nil: "Split s sep \<noteq> []"
  by (cases s) (auto split: list.splits)

lemma structFields_unexported:
  "PkgPath field \<noteq> '''' \<Longrightarrow>
   structFields n U (field # rest) props required visited depth opts =
   structFields n U rest props required visited depth opts"
  by simp

lemma structFields_skip:
  "PkgPath field = '''' \<Longrightarrow> \<not> Anonymous field \<Longrightarrow> Tag field = ''-'' \<Longrightarrow>
   structFields n U (field # rest) props required visited depth opts =
   structFields n U rest props required visited depth opts"
  by simp

lemma structFields_embedded:
  "PkgPath field = '''' \<Longrightarrow> Anonymous field \<Longrightarrow>
   structFields (Suc m) U (field # rest) props required visited depth opts =
     (case structProperties m U (Type field) visited depth opts of
        None \<Rightarrow> None
      | Some (Inl err, visited') \<Rightarrow> Some (Inl err, visited')
      | Some (Inr (embeddedProps, embeddedRequired), visited') \<Rightarrow>
          structFields (Suc m) U rest (props ++ embeddedProps) (required @ embeddedRequired)
            visited' depth opts)"
  by simp

lemma structFields_field:
  "PkgPath field = '''' \<Longrightarrow> \<not> Anonymous field \<Longrightarrow> Tag field \<noteq> ''-'' \<Longrightarrow>
   parseJSONTag (Name field) (Tag field) = (fieldName, isOptional) \<Longrightarrow>
   structFields (Suc m) U (field # rest) props required visited depth opts =
     (case JsonTypeOf m U (Type field) visited depth opts of
        None \<Rightarrow> None
      | Some (Inl err, visited') \<Rightarrow> Some (Inl err, visited')
      | Some (Inr fieldSchema, visited') \<Rightarrow>
          structFields (Suc m) U rest
            (props(fieldName \<mapsto>
               (case fieldSchema of
                  JString v \<Rightarrow>
                    (if isOptional then JSchema [''type'' \<mapsto> JStrings [v, ''null'']]
                     else JSchema [''type'' \<mapsto> JString v])
                | JSchema v \<Rightarrow>
                    (if isOptional then
                       JSchema [''anyOf'' \<mapsto> JSchemas [v, [''type'' \<mapsto> JString ''null'']]]
                     else JSchema v)
                | _ \<Rightarrow> fieldSchema)))
            (required @ [fieldName]) visited' depth opts)"
  by simp

lemma structFields_no_fuel:
  "PkgPath field = '''' \<Longrightarrow> Anonymous field \<or> Tag field \<noteq> ''-'' \<Longrightarrow>
   structFields 0 U (field # rest) props required visited depth opts = None"
  by (auto split: prod.splits)

text \<open>
  From here on the two large equations are unfolded only through the branch lemmas above.
\<close>

declare JsonTypeOf.simps(2) [simp del] structFields.simps(2) [simp del]

section \<open>Induction over the calls\<close>

text \<open>
  A property of the four functions is proved by induction on the fuel, and for the loop
  on the fields that are left: a call may use the property for the calls it makes.
\<close>

lemma structFields_induct_aux:
  assumes nil: "\<And>P R V. P4 n U [] P R V d opts"
    and cons: "\<And>f rest P R V.
        (\<And>P' R' V'. P4 n U rest P' R' V' d opts) \<Longrightarrow>
        (\<And>m. n = Suc m \<Longrightarrow> P3 m U (Type f) V d opts) \<Longrightarrow>
        (\<And>m. n = Suc m \<Longrightarrow> P1 m U (Type f) V d opts) \<Longrightarrow>
        P4 n U (f # rest) P R V d opts"
    and sub3: "\<And>m t V. n = Suc m \<Longrightarrow> P3 m U t V d opts"
    and sub1: "\<And>m t V. n = Suc m \<Longrightarrow> P1 m U t V d opts"
  shows "P4 n U fs P R V d opts"
proof (induction fs arbitrary: P R V)
  case Nil
  show ?case by (rule nil)
next
  case (Cons f rest)
  show ?case by (rule cons) (rule Cons.IH, rule sub3, assumption, rule sub1, assumption)
qed

lemma conversion_induct:
  assumes J0: "\<And>U t V d opts. P1 0 U t V d opts"
    and J: "\<And>n U t V d opts.
        (\<And>t'. P2 n U t' V (wrap64 (d + 1)) opts) \<Longrightarrow>
        (\<And>t'. P3 n U t' (insert t' V) (wrap64 (d + 1)) opts) \<Longrightarrow> P1 (Suc n) U t V d opts"
    and A0: "\<And>U t V d opts. P2 0 U t V d opts"
    and A: "\<And>n U t V d opts. P1 n U (Elem (U t)) V d opts \<Longrightarrow> P2 (Suc n) U t V d opts"
    and S0: "\<And>U t V d opts. P3 0 U t V d opts"
    and S: "\<And>n U t V d opts.
        P4 n U (Fields (U t)) Map.empty [] V d opts \<Longrightarrow> P3 (Suc n) U t V d opts"
    and F0: "\<And>n U P R V d opts. P4 n U [] P R V d opts"
    and F: "\<And>n U f rest P R V d opts.
        (\<And>P' R' V'. P4 n U rest P' R' V' d opts) \<Longrightarrow>
        (\<And>m. n = Suc m \<Longrightarrow> P3 m U (Type f) V d opts) \<Longrightarrow>
        (\<And>m. n = Suc m \<Longrightarrow> P1 m U (Type f) V d opts) \<Longrightarrow>
        P4 n U (f # rest) P R V d opts"
  shows "P1 n U t V d opts \<and> P2 n U t V d opts \<and> P3 n U t V d opts
         \<and> P4 n U fs P R V d opts"
proof -
  have "\<forall>U t V d opts fs P R.
          P1 n U t V d opts \<and> P2 n U t V d opts \<and> P3 n U t V d opts
          \<and> P4 n U fs P R V d opts"
  proof (induction n)
    case 0
    have "P4 0 U fs P R V d opts" for U fs P R V d opts
    proof (rule structFields_induct_aux [where ?P1.0 = P1 and ?P3.0 = P3 and ?P4.0 = P4])
      show "P4 0 U [] P R V d opts" for P R V by (rule F0)
      show "P4 0 U (f # rest) P R V d opts"
        if "\<And>P' R' V'. P4 0 U rest P' R' V' d opts" for f rest P R V
        by (rule F) (use that in simp_all)
    qed simp_all
    with J0 A0 S0 show ?case by simp
  next
    case (Suc n)
    have f: "P4 (Suc n) U fs P R V d opts" for U fs P R V d opts
    proof (rule structFields_induct_aux [where ?P1.0 = P1 and ?P3.0 = P3 and ?P4.0 = P4])
      show "P4 (Suc n) U [] P R V d opts" for P R V by (rule F0)
      show "P4 (Suc n) U (f # rest) P R V d opts"
        if "\<And>P' R' V'. P4 (Suc n) U rest P' R' V' d opts" for f rest P R V
        by (rule F) (use that Suc in simp_all)
      show "P3 m U t V d opts" if "Suc n = Suc m" for m t V
        using that Suc by simp
      show "P1 m U t V d opts" if "Suc n = Suc m" for m t V
        using that Suc by simp
    qed
    have j: "P1 (Suc n) U t V d opts" for U t V d opts
      by (rule J) (insert Suc, simp_all)
    have a: "P2 (Suc n) U t V d opts" for U t V d opts
      by (rule A) (insert Suc, simp_all)
    have s: "P3 (Suc n) U t V d opts" for U t V d opts
      by (rule S) (insert Suc, simp_all)
    from f j a s show ?case by simp
  qed
  then show ?thesis by simp
qed


section \<open>What a returned result tells about the calls made\<close>

lemma JsonTypeOf_leaf:
  assumes "\<not> MaxDepth opts < depth" "deref n U t = Some t'"
    "Kind (U t') \<notin> {Slice, Array}" "Kind (U t') \<noteq> Struct"
  shows "JsonTypeOf (Suc n) U t visited depth opts = Some (leaf_result (Kind (U t')), visited)"
  using Kind_classes [of "Kind (U t')"] assms(3,4)
    JsonTypeOf_String [OF assms(1,2), of visited] JsonTypeOf_Bool [OF assms(1,2), of visited]
    JsonTypeOf_integer [OF assms(1,2), of visited] JsonTypeOf_number [OF assms(1,2), of visited]
    JsonTypeOf_unsupported [OF assms(1,2), of visited]
  unfolding leaf_result_def by (elim disjE) auto

lemma leaf_result_cases:
  "leaf_result k \<in> {Inr (JString ''string''), Inr (JString ''boolean''),
                     Inr (JString ''integer''), Inr (JString ''number''),
                     Inl ErrUnsupportedType}"
  unfolding leaf_result_def by simp

lemma JsonTypeOf_SomeE [consumes 1, case_names depth seen leaf array_err array struct_err struct]:
  assumes res: "JsonTypeOf n U t V d opts = Some res"
  obtains
    (depth) "MaxDepth opts < d" "res = (Inl ErrCircularRef, V)"
  | (seen) m t' where "n = Suc m" "\<not> MaxDepth opts < d" "deref m U t = Some t'"
      "Kind (U t') = Struct" "t' \<in> V" "res = (Inl ErrCircularRef, V)"
  | (leaf) m t' where "n = Suc m" "\<not> MaxDepth opts < d" "deref m U t = Some t'"
      "Kind (U t') \<notin> {Slice, Array}" "Kind (U t') \<noteq> Struct"
      "res = (leaf_result (Kind (U t')), V)"
  | (array_err) m t' err V' where "n = Suc m" "\<not> MaxDepth opts < d" "deref m U t = Some t'"
      "Kind (U t') \<in> {Slice, Array}"
      "parseArrayItemType m U t' V (wrap64 (d + 1)) opts = Some (Inl err, V')" "res = (Inl err, V')"
  | (array) m t' items V' where "n = Suc m" "\<not> MaxDepth opts < d" "deref m U t = Some t'"
      "Kind (U t') \<in> {Slice, Array}"
      "parseArrayItemType m U t' V (wrap64 (d + 1)) opts = Some (Inr items, V')"
      "res = (Inr (JSchema [''type'' \<mapsto> JString ''array'', ''items'' \<mapsto> items]), V')"
  | (struct_err) m t' err V' where "n = Suc m" "\<not> MaxDepth opts < d" "deref m U t = Some t'"
      "Kind (U t') = Struct" "t' \<notin> V"
      "structProperties m U t' (insert t' V) (wrap64 (d + 1)) opts = Some (Inl err, V')"
      "res = (Inl err, V' - {t'})"
  | (struct) m t' props required V' where "n = Suc m" "\<not> MaxDepth opts < d"
      "deref m U t = Some t'" "Kind (U t') = Struct" "t' \<notin> V"
      "structProperties m U t' (insert t' V) (wrap64 (d + 1)) opts = Some (Inr (props, required), V')"
      "res = (Inr (JSchema
                (if length required > 0 then
                   [''type'' \<mapsto> JString ''object'',
                    ''properties'' \<mapsto> JSchema props,
                    ''additionalProperties'' \<mapsto> JBool (AllowAdditionalProperty opts),
                    ''required'' \<mapsto> JStrings required]
                 else
                   [''type'' \<mapsto> JString ''object'',
                    ''properties'' \<mapsto> JSchema props,
                    ''additionalProperties'' \<mapsto> JBool (AllowAdditionalProperty opts)])),
              V' - {t'})"
proof (cases n)
  case 0
  with res show ?thesis by simp
next
  case (Suc m)
  show ?thesis
  proof (cases "MaxDepth opts < d")
    case True
    with res Suc depth show ?thesis by (simp add: JsonTypeOf_depth)
  next
    case nd: False
    show ?thesis
    proof (cases "deref m U t")
      case None
      with nd res Suc show ?thesis by (simp add: JsonTypeOf_deref_None)
    next
      case dr: (Some t')
      consider (a) "Kind (U t') = Struct" "t' \<in> V"
        | (b) "Kind (U t') = Struct" "t' \<notin> V"
        | (c) "Kind (U t') \<in> {Slice, Array}"
        | (e) "Kind (U t') \<notin> {Slice, Array}" "Kind (U t') \<noteq> Struct"
        by blast
      then show ?thesis
      proof cases
        case a
        with nd dr res Suc seen show ?thesis by (simp add: JsonTypeOf_visited)
      next
        case b
        from res Suc have eq:
          "(case structProperties m U t' (insert t' V) (wrap64 (d + 1)) opts of
              None \<Rightarrow> None
            | Some (Inl err, visited') \<Rightarrow> Some (Inl err, visited' - {t'})
            | Some (Inr (props, required), visited') \<Rightarrow>
                Some (Inr (JSchema
                   (if length required > 0 then
                      [''type'' \<mapsto> JString ''object'',
                       ''properties'' \<mapsto> JSchema props,
                       ''additionalProperties'' \<mapsto> JBool (AllowAdditionalProperty opts),
                       ''required'' \<mapsto> JStrings required]
                    else
                      [''type'' \<mapsto> JString ''object'',
                       ''properties'' \<mapsto> JSchema props,
                       ''additionalProperties'' \<mapsto> JBool (AllowAdditionalProperty opts)])),
                   visited' - {t'})) = Some res"
          by (simp only: JsonTypeOf_Struct [OF nd dr b])
        then show ?thesis
        proof (cases "structProperties m U t' (insert t' V) (wrap64 (d + 1)) opts")
          case None
          with eq show ?thesis by simp
        next
          case (Some x)
          obtain r V' where x: "x = (r, V')" by (cases x)
          show ?thesis
          proof (cases r)
            case (Inl err)
            with Some x have call:
              "structProperties m U t' (insert t' V) (wrap64 (d + 1)) opts = Some (Inl err, V')"
              by simp
            with eq have "res = (Inl err, V' - {t'})" by simp
            with call show ?thesis by (rule struct_err [OF Suc nd dr b])
          next
            case (Inr pr)
            obtain props required where pr: "pr = (props, required)" by (cases pr)
            with Inr Some x have call:
              "structProperties m U t' (insert t' V) (wrap64 (d + 1)) opts
                 = Some (Inr (props, required), V')"
              by simp
            from eq show ?thesis
              unfolding call by (intro struct [OF Suc nd dr b call]) simp
          qed
        qed
      next
        case c
        from res Suc have eq:
          "(case parseArrayItemType m U t' V (wrap64 (d + 1)) opts of
              None \<Rightarrow> None
            | Some (Inl err, visited') \<Rightarrow> Some (Inl err, visited')
            | Some (Inr items, visited') \<Rightarrow>
                Some (Inr (JSchema [''type'' \<mapsto> JString ''array'', ''items'' \<mapsto> items]),
                      visited')) = Some res"
          by (simp only: JsonTypeOf_array [OF nd dr c])
        then show ?thesis
        proof (cases "parseArrayItemType m U t' V (wrap64 (d + 1)) opts")
          case None
          with eq show ?thesis by simp
        next
          case (Some x)
          obtain r V' where x: "x = (r, V')" by (cases x)
          show ?thesis
          proof (cases r)
            case (Inl err)
            with Some x have call:
              "parseArrayItemType m U t' V (wrap64 (d + 1)) opts = Some (Inl err, V')"
              by simp
            with eq have "res = (Inl err, V')" by simp
            with call show ?thesis by (rule array_err [OF Suc nd dr c])
          next
            case (Inr items)
            with Some x have call:
              "parseArrayItemType m U t' V (wrap64 (d + 1)) opts = Some (Inr items, V')"
              by simp
            from eq show ?thesis
              unfolding call by (intro array [OF Suc nd dr c call]) simp
          qed
        qed
      next
        case e
        from JsonTypeOf_leaf [OF nd dr e, of V] res Suc
        have "res = (leaf_result (Kind (U t')), V)" by simp
        then show ?thesis by (rule leaf [OF Suc nd dr e])
      qed
    qed
  qed
qed


lemma parseArrayItemType_panic:
  "Kind (U t) \<notin> {Array, Chan, Map, Pointer, Slice} \<Longrightarrow>
   parseArrayItemType (Suc n) U t visited depth opts = Some (Inl ReflectPanic, visited)"
  by simp

lemma parseArrayItemType_elem:
  "Kind (U t) \<in> {Array, Chan, Map, Pointer, Slice} \<Longrightarrow>
   parseArrayItemType (Suc n) U t visited depth opts =
     (case JsonTypeOf n U (Elem (U t)) visited depth opts of
        None \<Rightarrow> None
      | Some (Inl err, visited') \<Rightarrow> Some (Inl err, visited')
      | Some (Inr schema, visited') \<Rightarrow>
          Some (Inr (case schema of JString s \<Rightarrow> JSchema [''type'' \<mapsto> JString s]
                                   | _ \<Rightarrow> schema), visited'))"
  by (auto split: option.splits sum.splits jvalue.splits)

declare parseArrayItemType.simps(2) [simp del]

lemma parseArrayItemType_SomeE [consumes 1, case_names panic err item]:
  assumes res: "parseArrayItemType n U t V d opts = Some res"
  obtains
    (panic) "Kind (U t) \<notin> {Array, Chan, Map, Pointer, Slice}" "res = (Inl ReflectPanic, V)"
  | (err) m err V' where "n = Suc m" "Kind (U t) \<in> {Array, Chan, Map, Pointer, Slice}"
      "JsonTypeOf m U (Elem (U t)) V d opts = Some (Inl err, V')" "res = (Inl err, V')"
  | (item) m schema V' where "n = Suc m" "Kind (U t) \<in> {Array, Chan, Map, Pointer, Slice}"
      "JsonTypeOf m U (Elem (U t)) V d opts = Some (Inr schema, V')"
      "res = (Inr (case schema of JString s \<Rightarrow> JSchema [''type'' \<mapsto> JString s] | _ \<Rightarrow> schema),
              V')"
proof (cases n)
  case 0
  with res show ?thesis by simp
next
  case (Suc m)
  show ?thesis
  proof (cases "Kind (U t) \<in> {Array, Chan, Map, Pointer, Slice}")
    case False
    from res have "res = (Inl ReflectPanic, V)"
      unfolding Suc parseArrayItemType_panic [of U t, OF False] by simp
    with False show ?thesis by (rule panic)
  next
    case True
    note eq = res [unfolded Suc parseArrayItemType_elem [of U t, OF True]]
    show ?thesis
    proof (cases "JsonTypeOf m U (Elem (U t)) V d opts")
      case None
      with eq show ?thesis by simp
    next
      case (Some x)
      obtain r V' where x: "x = (r, V')" by (cases x)
      show ?thesis
      proof (cases r)
        case (Inl e)
        with Some x have call: "JsonTypeOf m U (Elem (U t)) V d opts = Some (Inl e, V')"
          by simp
        with eq have "res = (Inl e, V')" by simp
        with Suc True call show ?thesis by (rule err)
      next
        case (Inr schema)
        with Some x have call: "JsonTypeOf m U (Elem (U t)) V d opts = Some (Inr schema, V')"
          by simp
        with eq have
          "res = (Inr (case schema of JString s \<Rightarrow> JSchema [''type'' \<mapsto> JString s]
                                     | _ \<Rightarrow> schema), V')"
          by simp
        with Suc True call show ?thesis by (rule item)
      qed
    qed
  qed
qed

lemma structProperties_SomeE [consumes 1, case_names panic fields]:
  assumes res: "structProperties n U t V d opts = Some res"
  obtains
    (panic) "Kind (U t) \<noteq> Struct" "res = (Inl ReflectPanic, V)"
  | (fields) m where "n = Suc m" "Kind (U t) = Struct"
      "structFields m U (Fields (U t)) Map.empty [] V d opts = Some res"
proof (cases n)
  case 0
  with res show ?thesis by simp
next
  case (Suc m)
  show ?thesis
  proof (cases "Kind (U t) = Struct")
    case True
    with res Suc have "structFields m U (Fields (U t)) Map.empty [] V d opts = Some res"
      by simp
    with Suc True show ?thesis by (rule fields)
  next
    case False
    with res Suc have "res = (Inl ReflectPanic, V)" by simp
    with False show ?thesis by (rule panic)
  qed
qed

lemma structFields_ConsE
    [consumes 1, case_names skipped embedded_err embedded field_err field]:
  assumes res: "structFields n U (f # rest) P R V d opts = Some res"
  obtains
    (skipped) "PkgPath f \<noteq> '''' \<or> (\<not> Anonymous f \<and> Tag f = ''-'')"
      "structFields n U rest P R V d opts = Some res"
  | (embedded_err) m err V' where "n = Suc m" "PkgPath f = ''''" "Anonymous f"
      "structProperties m U (Type f) V d opts = Some (Inl err, V')" "res = (Inl err, V')"
  | (embedded) m eP eR V' where "n = Suc m" "PkgPath f = ''''" "Anonymous f"
      "structProperties m U (Type f) V d opts = Some (Inr (eP, eR), V')"
      "structFields n U rest (P ++ eP) (R @ eR) V' d opts = Some res"
  | (field_err) m err V' where "n = Suc m" "PkgPath f = ''''" "\<not> Anonymous f"
      "Tag f \<noteq> ''-''"
      "JsonTypeOf m U (Type f) V d opts = Some (Inl err, V')" "res = (Inl err, V')"
  | (field) m fieldName isOptional fieldSchema V' where "n = Suc m" "PkgPath f = ''''"
      "\<not> Anonymous f" "Tag f \<noteq> ''-''"
      "parseJSONTag (Name f) (Tag f) = (fieldName, isOptional)"
      "JsonTypeOf m U (Type f) V d opts = Some (Inr fieldSchema, V')"
      "structFields n U rest
         (P(fieldName \<mapsto>
            (case fieldSchema of
               JString v \<Rightarrow>
                 (if isOptional then JSchema [''type'' \<mapsto> JStrings [v, ''null'']]
                  else JSchema [''type'' \<mapsto> JString v])
             | JSchema v \<Rightarrow>
                 (if isOptional then
                    JSchema [''anyOf'' \<mapsto> JSchemas [v, [''type'' \<mapsto> JString ''null'']]]
                  else JSchema v)
             | _ \<Rightarrow> fieldSchema)))
         (R @ [fieldName]) V' d opts = Some res"
proof -
  consider (a) "PkgPath f \<noteq> '''' \<or> (\<not> Anonymous f \<and> Tag f = ''-'')"
    | (b) "PkgPath f = ''''" "Anonymous f"
    | (c) "PkgPath f = ''''" "\<not> Anonymous f" "Tag f \<noteq> ''-''"
    by blast
  then show ?thesis
  proof cases
    case a
    with res have "structFields n U rest P R V d opts = Some res"
      by (cases "PkgPath f = ''''") (auto simp: structFields_unexported structFields_skip)
    with a show ?thesis by (rule skipped)
  next
    case b
    show ?thesis
    proof (cases n)
      case 0
      with res b show ?thesis by (simp add: structFields_no_fuel)
    next
      case (Suc m)
      note eq = res [unfolded Suc structFields_embedded [OF b]]
      show ?thesis
      proof (cases "structProperties m U (Type f) V d opts")
        case None
        with eq show ?thesis by simp
      next
        case (Some x)
        obtain r V' where x: "x = (r, V')" by (cases x)
        show ?thesis
        proof (cases r)
          case (Inl e)
          with Some x have call: "structProperties m U (Type f) V d opts = Some (Inl e, V')"
            by simp
          with eq have "res = (Inl e, V')" by simp
          with Suc b call show ?thesis by (rule embedded_err)
        next
          case (Inr pr)
          obtain eP eR where "pr = (eP, eR)" by (cases pr)
          with Inr Some x have call:
            "structProperties m U (Type f) V d opts = Some (Inr (eP, eR), V')"
            by simp
          with eq Suc have "structFields n U rest (P ++ eP) (R @ eR) V' d opts = Some res"
            by simp
          with Suc b call show ?thesis by (rule embedded)
        qed
      qed
    qed
  next
    case c
    obtain fieldName isOptional where
      tag: "parseJSONTag (Name f) (Tag f) = (fieldName, isOptional)"
      by (cases "parseJSONTag (Name f) (Tag f)")
    show ?thesis
    proof (cases n)
      case 0
      with res c show ?thesis by (simp add: structFields_no_fuel)
    next
      case (Suc m)
      note eq = res [unfolded Suc structFields_field [OF c tag]]
      show ?thesis
      proof (cases "JsonTypeOf m U (Type f) V d opts")
        case None
        with eq show ?thesis by simp
      next
        case (Some x)
        obtain r V' where x: "x = (r, V')" by (cases x)
        show ?thesis
        proof (cases r)
          case (Inl e)
          with Some x have call: "JsonTypeOf m U (Type f) V d opts = Some (Inl e, V')"
            by simp
          with eq have "res = (Inl e, V')" by simp
          with Suc c call show ?thesis by (rule field_err)
        next
          case (Inr fieldSchema)
          with Some x have call:
            "JsonTypeOf m U (Type f) V d opts = Some (Inr fieldSchema, V')"
            by simp
          from eq show ?thesis
            unfolding call by (intro field [OF Suc c tag call]) (simp add: Suc)
        qed
      qed
    qed
  qed
qed


section \<open>The visited set is restored by every call\<close>

lemma visited_restored_all:
  "(\<forall>res. JsonTypeOf n U t V d opts = Some res \<longrightarrow> snd res = V) \<and>
   (\<forall>res. parseArrayItemType n U t V d opts = Some res \<longrightarrow> snd res = V) \<and>
   (\<forall>res. structProperties n U t V d opts = Some res \<longrightarrow> snd res = V) \<and>
   (\<forall>res. structFields n U fs P R V d opts = Some res \<longrightarrow> snd res = V)"
proof (rule conversion_induct
    [where ?P1.0 = "\<lambda>n U t V d opts. \<forall>res. JsonTypeOf n U t V d opts = Some res \<longrightarrow> snd res = V"
       and ?P2.0 = "\<lambda>n U t V d opts.
                      \<forall>res. parseArrayItemType n U t V d opts = Some res \<longrightarrow> snd res = V"
       and ?P3.0 = "\<lambda>n U t V d opts.
                      \<forall>res. structProperties n U t V d opts = Some res \<longrightarrow> snd res = V"
       and ?P4.0 = "\<lambda>n U fs P R V d opts.
                      \<forall>res. structFields n U fs P R V d opts = Some res \<longrightarrow> snd res = V"],
    goal_cases)
  case (1 U t V d opts)
  show ?case by simp
next
  case (2 n U t V d opts)
  show ?case
  proof (intro allI impI)
    fix res
    assume "JsonTypeOf (Suc n) U t V d opts = Some res"
    then show "snd res = V"
    proof (cases rule: JsonTypeOf_SomeE)
      case (array_err m t' err V')
      with 2(1) [of t'] show ?thesis by auto
    next
      case (array m t' items V')
      with 2(1) [of t'] show ?thesis by auto
    next
      case (struct_err m t' err V')
      with 2(2) [of t'] show ?thesis by auto
    next
      case (struct m t' props required V')
      with 2(2) [of t'] show ?thesis by auto
    qed simp_all
  qed
next
  case (3 U t V d opts)
  show ?case by simp
next
  case (4 n U t V d opts)
  show ?case
  proof (intro allI impI)
    fix res
    assume "parseArrayItemType (Suc n) U t V d opts = Some res"
    then show "snd res = V"
      by (cases rule: parseArrayItemType_SomeE) (use 4 in auto)
  qed
next
  case (5 U t V d opts)
  show ?case by simp
next
  case (6 n U t V d opts)
  show ?case
  proof (intro allI impI)
    fix res
    assume "structProperties (Suc n) U t V d opts = Some res"
    then show "snd res = V"
      by (cases rule: structProperties_SomeE) (use 6 in auto)
  qed
next
  case (7 n U P R V d opts)
  show ?case by simp
next
  case (8 n U f rest P R V d opts)
  show ?case
  proof (intro allI impI)
    fix res
    assume "structFields n U (f # rest) P R V d opts = Some res"
    then show "snd res = V"
    proof (cases rule: structFields_ConsE)
      case skipped
      with 8(1) show ?thesis by blast
    next
      case (embedded_err m err V')
      with 8(2) [of m] show ?thesis by auto
    next
      case (embedded m eP eR V')
      with 8(2) [of m] have "V' = V" by auto
      with embedded 8(1) show ?thesis by blast
    next
      case (field_err m err V')
      with 8(3) [of m] show ?thesis by auto
    next
      case (field m fieldName isOptional fieldSchema V')
      with 8(3) [of m] have "V' = V" by auto
      with field(7) 8(1) show ?thesis by blast
    qed
  qed
qed

lemma JsonTypeOf_visited_restored:
  "JsonTypeOf n U t V d opts = Some (r, V') \<Longrightarrow> V' = V"
  using visited_restored_all [of n U t V d opts] by auto

lemma structProperties_visited_restored:
  "structProperties n U t V d opts = Some (r, V') \<Longrightarrow> V' = V"
  using visited_restored_all [of n U t V d opts] by auto

lemma parseArrayItemType_visited_restored:
  "parseArrayItemType n U t V d opts = Some (r, V') \<Longrightarrow> V' = V"
  using visited_restored_all [of n U t V d opts] by auto

lemma structFields_visited_restored:
  "structFields n U fs P R V d opts = Some (r, V') \<Longrightarrow> V' = V"
  using visited_restored_all [of n U _ V d opts fs P R] by auto


section \<open>More fuel gives the same result\<close>

lemma fuel_mono_all:
  "(\<forall>m res. n \<le> m \<longrightarrow> JsonTypeOf n U t V d opts = Some res
        \<longrightarrow> JsonTypeOf m U t V d opts = Some res) \<and>
   (\<forall>m res. n \<le> m \<longrightarrow> parseArrayItemType n U t V d opts = Some res
        \<longrightarrow> parseArrayItemType m U t V d opts = Some res) \<and>
   (\<forall>m res. n \<le> m \<longrightarrow> structProperties n U t V d opts = Some res
        \<longrightarrow> structProperties m U t V d opts = Some res) \<and>
   (\<forall>m res. n \<le> m \<longrightarrow> structFields n U fs P R V d opts = Some res
        \<longrightarrow> structFields m U fs P R V d opts = Some res)"
proof (rule conversion_induct
    [where ?P1.0 = "\<lambda>n U t V d opts. \<forall>m res. n \<le> m \<longrightarrow> JsonTypeOf n U t V d opts = Some res
                      \<longrightarrow> JsonTypeOf m U t V d opts = Some res"
       and ?P2.0 = "\<lambda>n U t V d opts. \<forall>m res. n \<le> m
                      \<longrightarrow> parseArrayItemType n U t V d opts = Some res
                      \<longrightarrow> parseArrayItemType m U t V d opts = Some res"
       and ?P3.0 = "\<lambda>n U t V d opts. \<forall>m res. n \<le> m
                      \<longrightarrow> structProperties n U t V d opts = Some res
                      \<longrightarrow> structProperties m U t V d opts = Some res"
       and ?P4.0 = "\<lambda>n U fs P R V d opts. \<forall>m res. n \<le> m
                      \<longrightarrow> structFields n U fs P R V d opts = Some res
                      \<longrightarrow> structFields m U fs P R V d opts = Some res"],
    goal_cases)
  case (1 U t V d opts)
  show ?case by simp
next
  case (2 n U t V d opts)
  show ?case
  proof (intro allI impI)
    fix m res
    assume le: "Suc n \<le> m" and ret: "JsonTypeOf (Suc n) U t V d opts = Some res"
    from le obtain k where m: "m = Suc k" and nk: "n \<le> k" by (cases m) auto
    from ret show "JsonTypeOf m U t V d opts = Some res"
    proof (cases rule: JsonTypeOf_SomeE)
      case depth
      then show ?thesis by (simp add: m JsonTypeOf_depth)
    next
      case (seen n' t')
      from seen(1) have nn: "n' = n" by simp
      have dr: "deref k U t = Some t'" by (rule deref_mono [OF seen(3) [unfolded nn] nk])
      show ?thesis
        unfolding m JsonTypeOf_visited [OF seen(2) dr seen(4,5)] seen(6) ..
    next
      case (leaf n' t')
      from leaf(1) have nn: "n' = n" by simp
      have dr: "deref k U t = Some t'" by (rule deref_mono [OF leaf(3) [unfolded nn] nk])
      show ?thesis
        unfolding m JsonTypeOf_leaf [OF leaf(2) dr leaf(4,5)] leaf(6) ..
    next
      case (array_err n' t' err V')
      from array_err(1) have nn: "n' = n" by simp
      have dr: "deref k U t = Some t'"
        by (rule deref_mono [OF array_err(3) [unfolded nn] nk])
      from 2(1) [of t'] nk array_err(5) [unfolded nn]
      have "parseArrayItemType k U t' V (wrap64 (d + 1)) opts = Some (Inl err, V')" by blast
      then show ?thesis
        unfolding m JsonTypeOf_array [OF array_err(2) dr array_err(4)] array_err(6) by simp
    next
      case (array n' t' items V')
      from array(1) have nn: "n' = n" by simp
      have dr: "deref k U t = Some t'" by (rule deref_mono [OF array(3) [unfolded nn] nk])
      from 2(1) [of t'] nk array(5) [unfolded nn]
      have "parseArrayItemType k U t' V (wrap64 (d + 1)) opts = Some (Inr items, V')" by blast
      then show ?thesis
        unfolding m JsonTypeOf_array [OF array(2) dr array(4)] array(6) by simp
    next
      case (struct_err n' t' err V')
      from struct_err(1) have nn: "n' = n" by simp
      have dr: "deref k U t = Some t'"
        by (rule deref_mono [OF struct_err(3) [unfolded nn] nk])
      from 2(2) [of t'] nk struct_err(6) [unfolded nn]
      have "structProperties k U t' (insert t' V) (wrap64 (d + 1)) opts = Some (Inl err, V')" by blast
      then show ?thesis
        unfolding m JsonTypeOf_Struct [OF struct_err(2) dr struct_err(4,5)] struct_err(7)
        by simp
    next
      case (struct n' t' props required V')
      from struct(1) have nn: "n' = n" by simp
      have dr: "deref k U t = Some t'" by (rule deref_mono [OF struct(3) [unfolded nn] nk])
      from 2(2) [of t'] nk struct(6) [unfolded nn]
      have "structProperties k U t' (insert t' V) (wrap64 (d + 1)) opts
              = Some (Inr (props, required), V')" by blast
      then show ?thesis
        unfolding m JsonTypeOf_Struct [OF struct(2) dr struct(4,5)] struct(7) by simp
    qed
  qed
next
  case (3 U t V d opts)
  show ?case by simp
next
  case (4 n U t V d opts)
  show ?case
  proof (intro allI impI)
    fix m res
    assume le: "Suc n \<le> m" and ret: "parseArrayItemType (Suc n) U t V d opts = Some res"
    from le obtain k where m: "m = Suc k" and nk: "n \<le> k" by (cases m) auto
    from ret show "parseArrayItemType m U t V d opts = Some res"
    proof (cases rule: parseArrayItemType_SomeE)
      case panic
      show ?thesis unfolding m parseArrayItemType_panic [of U t, OF panic(1)] panic(2) ..
    next
      case (err n' e V')
      from err(1) have nn: "n' = n" by simp
      from 4 nk err(3) [unfolded nn]
      have "JsonTypeOf k U (Elem (U t)) V d opts = Some (Inl e, V')" by blast
      then show ?thesis
        unfolding m parseArrayItemType_elem [of U t, OF err(2)] err(4) by simp
    next
      case (item n' schema V')
      from item(1) have nn: "n' = n" by simp
      from 4 nk item(3) [unfolded nn]
      have "JsonTypeOf k U (Elem (U t)) V d opts = Some (Inr schema, V')" by blast
      then show ?thesis
        unfolding m parseArrayItemType_elem [of U t, OF item(2)] item(4) by simp
    qed
  qed
next
  case (5 U t V d opts)
  show ?case by simp
next
  case (6 n U t V d opts)
  show ?case
  proof (intro allI impI)
    fix m res
    assume le: "Suc n \<le> m" and ret: "structProperties (Suc n) U t V d opts = Some res"
    from le obtain k where m: "m = Suc k" and nk: "n \<le> k" by (cases m) auto
    from ret show "structProperties m U t V d opts = Some res"
    proof (cases rule: structProperties_SomeE)
      case panic
      then show ?thesis by (simp add: m)
    next
      case (fields n')
      from fields(1) have nn: "n' = n" by simp
      from 6 nk fields(3) [unfolded nn]
      have "structFields k U (Fields (U t)) Map.empty [] V d opts = Some res" by blast
      with fields(2) show ?thesis by (simp add: m)
    qed
  qed
next
  case (7 n U P R V d opts)
  show ?case by simp
next
  case (8 n U f rest P R V d opts)
  show ?case
  proof (intro allI impI)
    fix m res
    assume le: "n \<le> m" and ret: "structFields n U (f # rest) P R V d opts = Some res"
    from ret show "structFields m U (f # rest) P R V d opts = Some res"
    proof (cases rule: structFields_ConsE)
      case skipped
      from skipped(2) 8(1) le have r: "structFields m U rest P R V d opts = Some res"
        by blast
      show ?thesis
      proof (cases "PkgPath f = ''''")
        case True
        with skipped(1) have "\<not> Anonymous f" "Tag f = ''-''" by simp_all
        from structFields_skip [OF True this] r show ?thesis by simp
      next
        case False
        from structFields_unexported [OF False] r show ?thesis by simp
      qed
    next
      case (embedded_err n' err V')
      from le embedded_err(1) obtain k where m: "m = Suc k" and nk: "n' \<le> k"
        by (cases m) auto
      from 8(2) [OF embedded_err(1)] nk embedded_err(4)
      have "structProperties k U (Type f) V d opts = Some (Inl err, V')" by blast
      then show ?thesis
        unfolding m structFields_embedded [OF embedded_err(2,3)] embedded_err(5) by simp
    next
      case (embedded n' eP eR V')
      from le embedded(1) obtain k where m: "m = Suc k" and nk: "n' \<le> k"
        by (cases m) auto
      from 8(2) [OF embedded(1)] nk embedded(4)
      have "structProperties k U (Type f) V d opts = Some (Inr (eP, eR), V')" by blast
      moreover from embedded(5) 8(1) le
      have "structFields m U rest (P ++ eP) (R @ eR) V' d opts = Some res" by blast
      ultimately show ?thesis
        unfolding m structFields_embedded [OF embedded(2,3)] by simp
    next
      case (field_err n' err V')
      from le field_err(1) obtain k where m: "m = Suc k" and nk: "n' \<le> k"
        by (cases m) auto
      obtain fieldName isOptional where
        tag: "parseJSONTag (Name f) (Tag f) = (fieldName, isOptional)"
        by (cases "parseJSONTag (Name f) (Tag f)")
      from 8(3) [OF field_err(1)] nk field_err(5)
      have "JsonTypeOf k U (Type f) V d opts = Some (Inl err, V')" by blast
      then show ?thesis
        unfolding m structFields_field [OF field_err(2,3,4) tag] field_err(6) by simp
    next
      case (field n' fieldName isOptional fieldSchema V')
      from le field(1) obtain k where m: "m = Suc k" and nk: "n' \<le> k"
        by (cases m) auto
      from 8(3) [OF field(1)] nk field(6)
      have "JsonTypeOf k U (Type f) V d opts = Some (Inr fieldSchema, V')" by blast
      moreover from field(7) 8(1) le have
        "structFields m U rest
           (P(fieldName \<mapsto>
              (case fieldSchema of
                 JString v \<Rightarrow>
                   (if isOptional then JSchema [''type'' \<mapsto> JStrings [v, ''null'']]
                    else JSchema [''type'' \<mapsto> JString v])
               | JSchema v \<Rightarrow>
                   (if isOptional then
                      JSchema [''anyOf'' \<mapsto> JSchemas [v, [''type'' \<mapsto> JString ''null'']]]
                    else JSchema v)
               | _ \<Rightarrow> fieldSchema)))
           (R @ [fieldName]) V' d opts = Some res" by blast
      ultimately show ?thesis
        unfolding m structFields_field [OF field(2,3,4,5)] by simp
    qed
  qed
qed

lemma JsonTypeOf_fuel_mono:
  "JsonTypeOf n U t V d opts = Some res \<Longrightarrow> n \<le> m \<Longrightarrow>
   JsonTypeOf m U t V d opts = Some res"
  using fuel_mono_all [of n U t V d opts] by blast

lemma parseArrayItemType_fuel_mono:
  "parseArrayItemType n U t V d opts = Some res \<Longrightarrow> n \<le> m \<Longrightarrow>
   parseArrayItemType m U t V d opts = Some res"
  using fuel_mono_all [of n U t V d opts] by blast

lemma structProperties_fuel_mono:
  "structProperties n U t V d opts = Some res \<Longrightarrow> n \<le> m \<Longrightarrow>
   structProperties m U t V d opts = Some res"
  using fuel_mono_all [of n U t V d opts] by blast

lemma structFields_fuel_mono:
  "structFields n U fs P R V d opts = Some res \<Longrightarrow> n \<le> m \<Longrightarrow>
   structFields m U fs P R V d opts = Some res"
  using fuel_mono_all [of n U _ V d opts fs P R] by blast

section \<open>The shape of a successful result\<close>

lemma JsonTypeOf_result_shape:
  assumes "JsonTypeOf n U t V d opts = Some (Inr v, V')"
  shows "(\<exists>s \<in> {''string'', ''boolean'', ''integer'', ''number''}. v = JString s)
         \<or> (\<exists>s. v = JSchema s)"
  using assms
proof (cases rule: JsonTypeOf_SomeE)
  case (leaf m t')
  with leaf_result_cases [of "Kind (U t')"] show ?thesis by auto
qed simp_all

lemma parseArrayItemType_result_shape:
  assumes "parseArrayItemType n U t V d opts = Some (Inr v, V')"
  shows "\<exists>s. v = JSchema s"
  using assms
proof (cases rule: parseArrayItemType_SomeE)
  case (item m schema V'')
  from JsonTypeOf_result_shape [OF item(3)] item(4) show ?thesis by auto
qed simp_all

section \<open>A larger MaxDepth keeps a successful result\<close>

lemma MaxDepth_mono_all:
  "(\<forall>opts' v V'. deeper opts opts' \<longrightarrow> JsonTypeOf n U t V d opts = Some (Inr v, V')
        \<longrightarrow> JsonTypeOf n U t V d opts' = Some (Inr v, V')) \<and>
   (\<forall>opts' v V'. deeper opts opts' \<longrightarrow> parseArrayItemType n U t V d opts = Some (Inr v, V')
        \<longrightarrow> parseArrayItemType n U t V d opts' = Some (Inr v, V')) \<and>
   (\<forall>opts' v V'. deeper opts opts' \<longrightarrow> structProperties n U t V d opts = Some (Inr v, V')
        \<longrightarrow> structProperties n U t V d opts' = Some (Inr v, V')) \<and>
   (\<forall>opts' v V'. deeper opts opts' \<longrightarrow> structFields n U fs P R V d opts = Some (Inr v, V')
        \<longrightarrow> structFields n U fs P R V d opts' = Some (Inr v, V'))"
proof (rule conversion_induct
    [where ?P1.0 = "\<lambda>n U t V d opts. \<forall>opts' v V'. deeper opts opts'
                      \<longrightarrow> JsonTypeOf n U t V d opts = Some (Inr v, V')
                      \<longrightarrow> JsonTypeOf n U t V d opts' = Some (Inr v, V')"
       and ?P2.0 = "\<lambda>n U t V d opts. \<forall>opts' v V'. deeper opts opts'
                      \<longrightarrow> parseArrayItemType n U t V d opts = Some (Inr v, V')
                      \<longrightarrow> parseArrayItemType n U t V d opts' = Some (Inr v, V')"
       and ?P3.0 = "\<lambda>n U t V d opts. \<forall>opts' v V'. deeper opts opts'
                      \<longrightarrow> structProperties n U t V d opts = Some (Inr v, V')
                      \<longrightarrow> structProperties n U t V d opts' = Some (Inr v, V')"
       and ?P4.0 = "\<lambda>n U fs P R V d opts. \<forall>opts' v V'. deeper opts opts'
                      \<longrightarrow> structFields n U fs P R V d opts = Some (Inr v, V')
                      \<longrightarrow> structFields n U fs P R V d opts' = Some (Inr v, V')"],
    goal_cases)
  case (1 U t V d opts)
  show ?case by simp
next
  case (2 n U t V d opts)
  show ?case
  proof (intro allI impI)
    fix opts' v V'
    assume dp: "deeper opts opts'" and ret: "JsonTypeOf (Suc n) U t V d opts = Some (Inr v, V')"
    from ret show "JsonTypeOf (Suc n) U t V d opts' = Some (Inr v, V')"
    proof (cases rule: JsonTypeOf_SomeE)
      case (leaf n' t')
      from leaf(1) have nn: "n' = n" by simp
      from leaf(2) dp have nd: "\<not> MaxDepth opts' < d" by (simp add: deeper_def)
      show ?thesis
        unfolding JsonTypeOf_leaf [OF nd leaf(3) [unfolded nn] leaf(4,5)] leaf(6) ..
    next
      case (array n' t' items V'')
      from array(1) have nn: "n' = n" by simp
      from array(2) dp have nd: "\<not> MaxDepth opts' < d" by (simp add: deeper_def)
      from 2(1) [of t'] dp array(5) [unfolded nn]
      have "parseArrayItemType n U t' V (wrap64 (d + 1)) opts' = Some (Inr items, V'')" by blast
      then show ?thesis
        unfolding JsonTypeOf_array [OF nd array(3) [unfolded nn] array(4)] array(6) by simp
    next
      case (struct n' t' props required V'')
      from struct(1) have nn: "n' = n" by simp
      from struct(2) dp have nd: "\<not> MaxDepth opts' < d" by (simp add: deeper_def)
      from dp have aa: "AllowAdditionalProperty opts' = AllowAdditionalProperty opts"
        by (simp add: deeper_def)
      from 2(2) [of t'] dp struct(6) [unfolded nn]
      have "structProperties n U t' (insert t' V) (wrap64 (d + 1)) opts'
              = Some (Inr (props, required), V'')" by blast
      then show ?thesis
        unfolding JsonTypeOf_Struct [OF nd struct(3) [unfolded nn] struct(4,5)] struct(7) aa
        by simp
    qed simp_all
  qed
next
  case (3 U t V d opts)
  show ?case by simp
next
  case (4 n U t V d opts)
  show ?case
  proof (intro allI impI)
    fix opts' v V'
    assume dp: "deeper opts opts'"
      and ret: "parseArrayItemType (Suc n) U t V d opts = Some (Inr v, V')"
    from ret show "parseArrayItemType (Suc n) U t V d opts' = Some (Inr v, V')"
    proof (cases rule: parseArrayItemType_SomeE)
      case (item n' schema V'')
      from item(1) have nn: "n' = n" by simp
      from 4 dp item(3) [unfolded nn]
      have "JsonTypeOf n U (Elem (U t)) V d opts' = Some (Inr schema, V'')" by blast
      then show ?thesis
        unfolding parseArrayItemType_elem [of U t, OF item(2)] item(4) by simp
    qed simp_all
  qed
next
  case (5 U t V d opts)
  show ?case by simp
next
  case (6 n U t V d opts)
  show ?case
  proof (intro allI impI)
    fix opts' v V'
    assume dp: "deeper opts opts'"
      and ret: "structProperties (Suc n) U t V d opts = Some (Inr v, V')"
    from ret show "structProperties (Suc n) U t V d opts' = Some (Inr v, V')"
    proof (cases rule: structProperties_SomeE)
      case (fields n')
      from fields(1) have nn: "n' = n" by simp
      from 6 dp fields(3) [unfolded nn]
      have "structFields n U (Fields (U t)) Map.empty [] V d opts' = Some (Inr v, V')"
        by blast
      with fields(2) show ?thesis by simp
    qed simp_all
  qed
next
  case (7 n U P R V d opts)
  show ?case by simp
next
  case (8 n U f rest P R V d opts)
  show ?case
  proof (intro allI impI)
    fix opts' v V'
    assume dp: "deeper opts opts'"
      and ret: "structFields n U (f # rest) P R V d opts = Some (Inr v, V')"
    from ret show "structFields n U (f # rest) P R V d opts' = Some (Inr v, V')"
    proof (cases rule: structFields_ConsE)
      case skipped
      from skipped(2) 8(1) dp have r: "structFields n U rest P R V d opts' = Some (Inr v, V')"
        by blast
      show ?thesis
      proof (cases "PkgPath f = ''''")
        case True
        with skipped(1) have "\<not> Anonymous f" "Tag f = ''-''" by simp_all
        from structFields_skip [OF True this] r show ?thesis by simp
      next
        case False
        from structFields_unexported [OF False] r show ?thesis by simp
      qed
    next
      case (embedded n' eP eR V'')
      from 8(2) [OF embedded(1)] dp embedded(4)
      have "structProperties n' U (Type f) V d opts' = Some (Inr (eP, eR), V'')" by blast
      moreover from embedded(5) 8(1) dp
      have "structFields n U rest (P ++ eP) (R @ eR) V'' d opts' = Some (Inr v, V')" by blast
      ultimately show ?thesis
        unfolding embedded(1) structFields_embedded [OF embedded(2,3)] by simp
    next
      case (field n' fieldName isOptional fieldSchema V'')
      from 8(3) [OF field(1)] dp field(6)
      have "JsonTypeOf n' U (Type f) V d opts' = Some (Inr fieldSchema, V'')" by blast
      moreover from field(7) 8(1) dp have
        "structFields n U rest
           (P(fieldName \<mapsto>
              (case fieldSchema of
                 JString v \<Rightarrow>
                   (if isOptional then JSchema [''type'' \<mapsto> JStrings [v, ''null'']]
                    else JSchema [''type'' \<mapsto> JString v])
               | JSchema v \<Rightarrow>
                   (if isOptional then
                      JSchema [''anyOf'' \<mapsto> JSchemas [v, [''type'' \<mapsto> JString ''null'']]]
                    else JSchema v)
               | _ \<Rightarrow> fieldSchema)))
           (R @ [fieldName]) V'' d opts' = Some (Inr v, V')" by blast
      ultimately show ?thesis
        unfolding field(1) structFields_field [OF field(2,3,4,5)] by simp
    qed simp_all
  qed
qed

lemma JsonTypeOf_MaxDepth_mono:
  "JsonTypeOf n U t V d opts = Some (Inr v, V') \<Longrightarrow> deeper opts opts' \<Longrightarrow>
   JsonTypeOf n U t V d opts' = Some (Inr v, V')"
  using MaxDepth_mono_all [of opts n U t V d] by blast

section \<open>The loop over the fields\<close>

lemma and_then_value_simps [simp]:
  "and_then_value None k = None"
  "and_then_value (Some (Inl err, V)) k = Some (Inl err, V)"
  "and_then_value (Some (Inr v, V)) k = k v V"
  by (simp_all add: and_then_value_def)

lemma and_then_value_assoc:
  "and_then (and_then_value r k) k' = and_then_value r (\<lambda>v V. and_then (k v V) k')"
  by (simp add: and_then_def and_then_value_def split: option.splits sum.splits prod.splits)

lemma and_then_simps [simp]:
  "and_then None k = None"
  "and_then (Some (Inl err, V)) k = Some (Inl err, V)"
  "and_then (Some (Inr (P, R), V)) k = k P R V"
  by (simp_all add: and_then_def)

lemma and_then_assoc:
  "and_then (and_then r k) k' = and_then r (\<lambda>P R V. and_then (k P R V) k')"
  by (simp add: and_then_def split: option.splits sum.splits prod.splits)

lemma and_then_SomeD:
  "and_then r k = Some res \<Longrightarrow>
   (\<exists>err V. r = Some (Inl err, V) \<and> res = (Inl err, V))
   \<or> (\<exists>P R V. r = Some (Inr (P, R), V) \<and> k P R V = Some res)"
  by (auto simp: and_then_def split: option.splits sum.splits prod.splits)

lemma structFields_Cons_cases:
  obtains
    (skipped) "PkgPath f \<noteq> '''' \<or> (\<not> Anonymous f \<and> Tag f = ''-'')"
      "\<And>n U rest P R V d opts.
         structFields n U (f # rest) P R V d opts = structFields n U rest P R V d opts"
  | (embedded) "PkgPath f = ''''" "Anonymous f"
      "\<And>U rest P R V d opts. structFields 0 U (f # rest) P R V d opts = None"
      "\<And>m U rest P R V d opts.
         structFields (Suc m) U (f # rest) P R V d opts =
           and_then (structProperties m U (Type f) V d opts)
             (\<lambda>eP eR V'. structFields (Suc m) U rest (P ++ eP) (R @ eR) V' d opts)"
  | (field) fieldName isOptional where "PkgPath f = ''''" "\<not> Anonymous f" "Tag f \<noteq> ''-''"
      "parseJSONTag (Name f) (Tag f) = (fieldName, isOptional)"
      "\<And>U rest P R V d opts. structFields 0 U (f # rest) P R V d opts = None"
      "\<And>m U rest P R V d opts.
         structFields (Suc m) U (f # rest) P R V d opts =
           and_then_value (JsonTypeOf m U (Type f) V d opts)
             (\<lambda>fieldSchema V'. structFields (Suc m) U rest
                (P(fieldName \<mapsto> fieldProperty isOptional fieldSchema))
                (R @ [fieldName]) V' d opts)"
proof -
  consider (a) "PkgPath f \<noteq> '''' \<or> (\<not> Anonymous f \<and> Tag f = ''-'')"
    | (b) "PkgPath f = ''''" "Anonymous f"
    | (c) "PkgPath f = ''''" "\<not> Anonymous f" "Tag f \<noteq> ''-''"
    by blast
  then show ?thesis
  proof cases
    case a
    have "structFields n U (f # rest) P R V d opts = structFields n U rest P R V d opts"
      for n U rest P R V d opts
      using a by (cases "PkgPath f = ''''") (auto simp: structFields_unexported structFields_skip)
    with a show ?thesis by (rule skipped)
  next
    case b
    show ?thesis
    proof (rule embedded [OF b])
      show "structFields 0 U (f # rest) P R V d opts = None" for U rest P R V d opts
        using b by (simp add: structFields_no_fuel)
      show "structFields (Suc m) U (f # rest) P R V d opts =
           and_then (structProperties m U (Type f) V d opts)
             (\<lambda>eP eR V'. structFields (Suc m) U rest (P ++ eP) (R @ eR) V' d opts)"
        for m U rest P R V d opts
        unfolding structFields_embedded [OF b] and_then_def ..
    qed
  next
    case c
    obtain fieldName isOptional where
      tag: "parseJSONTag (Name f) (Tag f) = (fieldName, isOptional)"
      by (cases "parseJSONTag (Name f) (Tag f)")
    show ?thesis
    proof (rule field [OF c tag])
      show "structFields 0 U (f # rest) P R V d opts = None" for U rest P R V d opts
        using c by (simp add: structFields_no_fuel)
      show "structFields (Suc m) U (f # rest) P R V d opts =
           and_then_value (JsonTypeOf m U (Type f) V d opts)
             (\<lambda>fieldSchema V'. structFields (Suc m) U rest
                (P(fieldName \<mapsto> fieldProperty isOptional fieldSchema))
                (R @ [fieldName]) V' d opts)"
        for m U rest P R V d opts
        unfolding structFields_field [OF c tag] and_then_value_def fieldProperty_def ..
    qed
  qed
qed

lemma structFields_append:
  "structFields n U (xs @ ys) P R V d opts =
     and_then (structFields n U xs P R V d opts) (\<lambda>P' R' V'. structFields n U ys P' R' V' d opts)"
proof (induction xs arbitrary: P R V)
  case Nil
  show ?case by simp
next
  case (Cons f rest)
  show ?case
  proof (cases f rule: structFields_Cons_cases)
    case skipped
    show ?thesis unfolding append_Cons skipped(2) by (rule Cons.IH)
  next
    case embedded
    show ?thesis
    proof (cases n)
      case 0
      show ?thesis unfolding append_Cons 0 embedded(3) by simp
    next
      case (Suc m)
      show ?thesis
        unfolding append_Cons Suc embedded(4) and_then_assoc
        using Cons.IH [unfolded Suc] by simp
    qed
  next
    case (field fieldName isOptional)
    show ?thesis
    proof (cases n)
      case 0
      show ?thesis unfolding append_Cons 0 field(5) by simp
    next
      case (Suc m)
      show ?thesis
        unfolding append_Cons Suc field(6) and_then_value_assoc Cons.IH [unfolded Suc] ..
    qed
  qed
qed

lemma structFields_accumulate:
  "structFields n U fs P R V d opts =
     and_then (structFields n U fs Map.empty [] V d opts)
       (\<lambda>P' R' V'. Some (Inr (P ++ P', R @ R'), V'))"
proof (induction fs arbitrary: P R V)
  case Nil
  show ?case by simp
next
  case (Cons f rest)
  show ?case
  proof (cases f rule: structFields_Cons_cases)
    case skipped
    show ?thesis unfolding skipped(2) by (rule Cons.IH)
  next
    case embedded
    show ?thesis
    proof (cases n)
      case 0
      show ?thesis unfolding 0 embedded(3) by simp
    next
      case (Suc m)
      have step: "structFields (Suc m) U rest (P ++ eP) (R @ eR) V' d opts =
          and_then (structFields (Suc m) U rest (Map.empty ++ eP) ([] @ eR) V' d opts)
            (\<lambda>P' R' V'. Some (Inr (P ++ P', R @ R'), V'))" for eP eR V'
        unfolding Cons.IH [unfolded Suc, of "P ++ eP" "R @ eR" V']
          Cons.IH [unfolded Suc, of "Map.empty ++ eP" "[] @ eR" V'] and_then_assoc
        by simp
      show ?thesis
        unfolding Suc embedded(4) and_then_assoc step ..
    qed
  next
    case (field fieldName isOptional)
    show ?thesis
    proof (cases n)
      case 0
      show ?thesis unfolding 0 field(5) by simp
    next
      case (Suc m)
      have step: "structFields (Suc m) U rest (P(fieldName \<mapsto> e)) (R @ [fieldName]) V' d opts =
          and_then (structFields (Suc m) U rest (Map.empty(fieldName \<mapsto> e)) ([] @ [fieldName])
                      V' d opts)
            (\<lambda>P' R' V'. Some (Inr (P ++ P', R @ R'), V'))" for e V'
        unfolding Cons.IH [unfolded Suc, of "P(fieldName \<mapsto> e)" "R @ [fieldName]" V']
          Cons.IH [unfolded Suc, of "Map.empty(fieldName \<mapsto> e)" "[] @ [fieldName]" V']
          and_then_assoc
        by simp
      show ?thesis
        unfolding Suc field(6) and_then_value_assoc step ..
    qed
  qed
qed

section \<open>The required names are the keys of the properties\<close>

lemma required_is_dom_all:
  "True \<and> True \<and>
   (\<forall>props required V'. structProperties n U t V d opts = Some (Inr (props, required), V')
        \<longrightarrow> set required = dom props) \<and>
   (\<forall>props required V'. structFields n U fs P R V d opts = Some (Inr (props, required), V')
        \<longrightarrow> set R = dom P \<longrightarrow> set required = dom props)"
proof (rule conversion_induct
    [where ?P1.0 = "\<lambda>n U t V d opts. True"
       and ?P2.0 = "\<lambda>n U t V d opts. True"
       and ?P3.0 = "\<lambda>n U t V d opts. \<forall>props required V'.
                      structProperties n U t V d opts = Some (Inr (props, required), V')
                      \<longrightarrow> set required = dom props"
       and ?P4.0 = "\<lambda>n U fs P R V d opts. \<forall>props required V'.
                      structFields n U fs P R V d opts = Some (Inr (props, required), V')
                      \<longrightarrow> set R = dom P \<longrightarrow> set required = dom props"],
    goal_cases)
  case (6 n U t V d opts)
  show ?case
  proof (intro allI impI)
    fix props required V'
    assume "structProperties (Suc n) U t V d opts = Some (Inr (props, required), V')"
    then show "set required = dom props"
    proof (cases rule: structProperties_SomeE)
      case (fields n')
      from fields(1) have nn: "n' = n" by simp
      from 6 fields(3) [unfolded nn] show ?thesis by simp
    qed simp
  qed
next
  case (8 n U f rest P R V d opts)
  show ?case
  proof (intro allI impI)
    fix props required V'
    assume ret: "structFields n U (f # rest) P R V d opts = Some (Inr (props, required), V')"
      and inv: "set R = dom P"
    from ret show "set required = dom props"
    proof (cases rule: structFields_ConsE)
      case skipped
      from 8(1) skipped(2) inv show ?thesis by blast
    next
      case (embedded m eP eR V'')
      from 8(2) [OF embedded(1)] embedded(4) have "set eR = dom eP" by blast
      with inv have "set (R @ eR) = dom (P ++ eP)" by auto
      with 8(1) embedded(5) show ?thesis by blast
    next
      case (field m fieldName isOptional fieldSchema V'')
      from inv have "set (R @ [fieldName]) = dom (P(fieldName \<mapsto> x))" for x by auto
      with 8(1) field(7) show ?thesis by blast
    qed simp_all
  qed
qed simp_all

lemma structProperties_required_is_dom:
  "structProperties n U t V d opts = Some (Inr (props, required), V') \<Longrightarrow>
   set required = dom props"
  using required_is_dom_all [of n U t V d opts] by blast

lemma structProperties_split:
  assumes ret: "structProperties n U t V d opts = Some (Inr (props, required), V')"
    and fs: "Fields (U t) = pre @ f # post"
  obtains m P1 R1 where "n = Suc m" "Kind (U t) = Struct" "V' = V"
    "structFields m U pre Map.empty [] V d opts = Some (Inr (P1, R1), V)"
    "structFields m U (f # post) P1 R1 V d opts = Some (Inr (props, required), V)"
proof -
  from ret have V': "V' = V" by (rule structProperties_visited_restored)
  from ret obtain m where m: "n = Suc m" and k: "Kind (U t) = Struct"
    and loop: "structFields m U (pre @ f # post) Map.empty [] V d opts
                 = Some (Inr (props, required), V)"
    unfolding V' fs [symmetric] by (cases rule: structProperties_SomeE) simp_all
  from and_then_SomeD [OF loop [unfolded structFields_append]]
  obtain P1 R1 V1 where
    pre: "structFields m U pre Map.empty [] V d opts = Some (Inr (P1, R1), V1)"
    and rest: "structFields m U (f # post) P1 R1 V1 d opts = Some (Inr (props, required), V)"
    by auto
  from pre have "V1 = V" by (rule structFields_visited_restored)
  with pre rest m k V' show ?thesis by (auto intro: that)
qed

lemma structFields_from_empty:
  assumes "structFields n U fs P R V d opts = Some (Inr (props, required), V')"
  obtains P2 R2 where "structFields n U fs Map.empty [] V d opts = Some (Inr (P2, R2), V)"
    "props = P ++ P2" "required = R @ R2" "V' = V"
proof -
  from assms have V': "V' = V" by (rule structFields_visited_restored)
  from and_then_SomeD [OF assms [unfolded structFields_accumulate [of n U fs P R]]]
  obtain P2 R2 V2 where "structFields n U fs Map.empty [] V d opts = Some (Inr (P2, R2), V2)"
    "props = P ++ P2" "required = R @ R2" "V2 = V'"
    by auto
  with V' show ?thesis by (auto intro: that)
qed

section \<open>When the conversion returns\<close>

text \<open>
  The loop over the fields returns when the calls it makes return: the fuel that is enough
  for the first field and the fuel that is enough for the rest are both below their maximum.
\<close>

lemma structFields_returns:
  assumes jt: "\<And>ty V. \<exists>n res. JsonTypeOf n U ty V d opts = Some res"
    and sp: "\<And>f V. f \<in> set fs \<Longrightarrow> PkgPath f = '''' \<Longrightarrow> Anonymous f \<Longrightarrow>
               \<exists>n res. structProperties n U (Type f) V d opts = Some res"
  shows "\<exists>n res. structFields n U fs P R V d opts = Some res"
  using sp
proof (induction fs arbitrary: P R V)
  case Nil
  show ?case by simp
next
  case (Cons f rest)
  have rest: "\<exists>n res. structFields n U rest P' R' V' d opts = Some res" for P' R' V'
  proof (rule Cons.IH)
    fix g W
    assume "g \<in> set rest" "PkgPath g = ''''" "Anonymous g"
    then show "\<exists>n res. structProperties n U (Type g) W d opts = Some res"
      using Cons.prems [of g W] by simp
  qed
  show ?case
  proof (cases rule: structFields_Cons_cases [of f])
    case skipped
    from rest [of P R V] show ?thesis unfolding skipped(2) .
  next
    case embedded
    have "f \<in> set (f # rest)" by simp
    from Cons.prems [OF this embedded(1,2), of V] obtain n1 r1 where
      e: "structProperties n1 U (Type f) V d opts = Some r1" by blast
    obtain x V1 where r1: "r1 = (x, V1)" by (cases r1)
    show ?thesis
    proof (cases x)
      case (Inl err)
      have "structFields (Suc n1) U (f # rest) P R V d opts = Some (Inl err, V1)"
        unfolding embedded(4) e r1 Inl by simp
      then show ?thesis by blast
    next
      case (Inr pr)
      obtain eP eR where pr: "pr = (eP, eR)" by (cases pr)
      from rest [of "P ++ eP" "R @ eR" V1] obtain n2 r2 where
        r: "structFields n2 U rest (P ++ eP) (R @ eR) V1 d opts = Some r2" by blast
      define m where "m = max n1 n2"
      have "n1 \<le> m" by (simp add: m_def)
      from structProperties_fuel_mono [OF e this]
      have e': "structProperties m U (Type f) V d opts = Some (Inr (eP, eR), V1)"
        unfolding r1 Inr pr .
      have r': "structFields (Suc m) U rest (P ++ eP) (R @ eR) V1 d opts = Some r2"
        by (rule structFields_fuel_mono [OF r]) (simp add: m_def)
      have "structFields (Suc m) U (f # rest) P R V d opts = Some r2"
        unfolding embedded(4) e' and_then_simps r' ..
      then show ?thesis by blast
    qed
  next
    case (field fieldName isOptional)
    from jt obtain n1 r1 where
      e: "JsonTypeOf n1 U (Type f) V d opts = Some r1" by blast
    obtain x V1 where r1: "r1 = (x, V1)" by (cases r1)
    show ?thesis
    proof (cases x)
      case (Inl err)
      have "structFields (Suc n1) U (f # rest) P R V d opts = Some (Inl err, V1)"
        unfolding field(6) e r1 Inl by simp
      then show ?thesis by blast
    next
      case (Inr fieldSchema)
      from rest [of "P(fieldName \<mapsto> fieldProperty isOptional fieldSchema)" "R @ [fieldName]" V1]
      obtain n2 r2 where
        r: "structFields n2 U rest (P(fieldName \<mapsto> fieldProperty isOptional fieldSchema))
              (R @ [fieldName]) V1 d opts = Some r2" by blast
      define m where "m = max n1 n2"
      have "n1 \<le> m" by (simp add: m_def)
      from JsonTypeOf_fuel_mono [OF e this]
      have e': "JsonTypeOf m U (Type f) V d opts = Some (Inr fieldSchema, V1)"
        unfolding r1 Inr .
      have r': "structFields (Suc m) U rest (P(fieldName \<mapsto> fieldProperty isOptional fieldSchema))
              (R @ [fieldName]) V1 d opts = Some r2"
        by (rule structFields_fuel_mono [OF r]) (simp add: m_def)
      have "structFields (Suc m) U (f # rest) P R V d opts = Some r2"
        unfolding field(6) e' and_then_value_simps r' ..
      then show ?thesis by blast
    qed
  qed
qed

text \<open>
  Embedded fields are expanded at the same depth, so what bounds these calls is the
  nesting of struct values inside struct values, given here by a rank \<open>rk\<close> that goes down
  from a struct to the struct types it embeds. An embedded field of any other kind ends
  the call with the panic of \<^verbatim>\<open>NumField\<close>.
\<close>

lemma structProperties_returns:
  assumes jt: "\<And>ty V. \<exists>n res. JsonTypeOf n U ty V d opts = Some res"
    and rk: "\<And>ty f. Kind (U ty) = Struct \<Longrightarrow> f \<in> set (Fields (U ty)) \<Longrightarrow> PkgPath f = '''' \<Longrightarrow>
               Anonymous f \<Longrightarrow> Kind (U (Type f)) = Struct \<Longrightarrow> (rk (Type f) :: nat) < rk ty"
  shows "\<exists>n res. structProperties n U ty V d opts = Some res"
proof (induction "rk ty" arbitrary: ty V rule: less_induct)
  case less
  show ?case
  proof (cases "Kind (U ty) = Struct")
    case False
    then have "structProperties (Suc 0) U ty V d opts = Some (Inl ReflectPanic, V)" by simp
    then show ?thesis by blast
  next
    case True
    have "\<exists>n res. structFields n U (Fields (U ty)) Map.empty [] V d opts = Some res"
    proof (rule structFields_returns [OF jt])
      fix f W
      assume f: "f \<in> set (Fields (U ty))" "PkgPath f = ''''" "Anonymous f"
      show "\<exists>n res. structProperties n U (Type f) W d opts = Some res"
      proof (cases "Kind (U (Type f)) = Struct")
        case False
        then have "structProperties (Suc 0) U (Type f) W d opts = Some (Inl ReflectPanic, W)"
          by simp
        then show ?thesis by blast
      next
        case s: True
        from rk [OF True f s] show ?thesis by (rule less.hyps)
      qed
    qed
    then obtain n res where
      "structFields n U (Fields (U ty)) Map.empty [] V d opts = Some res" by blast
    with True have "structProperties (Suc n) U ty V d opts = Some res" by simp
    then show ?thesis by blast
  qed
qed

text \<open>
  \<^verbatim>\<open>JsonTypeOf\<close> returns when \<^verbatim>\<open>deref\<close> does and the calls that it makes through
  \<^verbatim>\<open>parseArrayItemType\<close> or a field, at the next depth, return.
\<close>

lemma JsonTypeOf_returns_step:
  assumes dr: "\<And>ty. \<exists>n t'. deref n U ty = Some t'"
    and rk: "\<And>ty f. Kind (U ty) = Struct \<Longrightarrow> f \<in> set (Fields (U ty)) \<Longrightarrow> PkgPath f = '''' \<Longrightarrow>
               Anonymous f \<Longrightarrow> Kind (U (Type f)) = Struct \<Longrightarrow> (rk (Type f) :: nat) < rk ty"
    and jt: "\<And>ty' V'. \<exists>n res. JsonTypeOf n U ty' V' (wrap64 (d + 1)) opts = Some res"
  shows "\<exists>n res. JsonTypeOf n U ty V d opts = Some res"
proof (cases "MaxDepth opts < d")
  case True
  then have "JsonTypeOf (Suc 0) U ty V d opts = Some (Inl ErrCircularRef, V)"
    by (rule JsonTypeOf_depth)
  then show ?thesis by blast
next
  case nd: False
  from dr obtain n0 t' where d0: "deref n0 U ty = Some t'" by blast
  consider (leaf) "Kind (U t') \<notin> {Slice, Array}" "Kind (U t') \<noteq> Struct"
    | (array) "Kind (U t') \<in> {Slice, Array}"
    | (seen) "Kind (U t') = Struct" "t' \<in> V"
    | (struct) "Kind (U t') = Struct" "t' \<notin> V"
    by blast
  then show ?thesis
  proof cases
    case leaf
    from JsonTypeOf_leaf [OF nd d0 leaf] show ?thesis by blast
  next
    case seen
    from JsonTypeOf_visited [OF nd d0 seen] show ?thesis by blast
  next
    case array
    from jt obtain n1 r1 where
      e: "JsonTypeOf n1 U (Elem (U t')) V (wrap64 (d + 1)) opts = Some r1" by blast
    from array have ek: "Kind (U t') \<in> {Array, Chan, Map, Pointer, Slice}" by auto
    have "\<exists>r. parseArrayItemType (Suc n1) U t' V (wrap64 (d + 1)) opts = Some r"
      unfolding parseArrayItemType_elem [of U t', OF ek] e
      by (cases r1) (simp split: sum.splits)
    then obtain r where
      p: "parseArrayItemType (Suc n1) U t' V (wrap64 (d + 1)) opts = Some r" ..
    define m where "m = max n0 (Suc n1)"
    have d': "deref m U ty = Some t'"
      by (rule deref_mono [OF d0]) (simp add: m_def)
    have p': "parseArrayItemType m U t' V (wrap64 (d + 1)) opts = Some r"
      by (rule parseArrayItemType_fuel_mono [OF p]) (simp add: m_def)
    have "\<exists>res. JsonTypeOf (Suc m) U ty V d opts = Some res"
      unfolding JsonTypeOf_array [OF nd d' array] p'
      by (cases r) (simp split: sum.splits)
    then show ?thesis by blast
  next
    case struct
    from structProperties_returns [of U "wrap64 (d + 1)" opts rk t' "insert t' V", OF jt rk]
    obtain n1 r where
      p: "structProperties n1 U t' (insert t' V) (wrap64 (d + 1)) opts = Some r" by blast
    define m where "m = max n0 n1"
    have d': "deref m U ty = Some t'"
      by (rule deref_mono [OF d0]) (simp add: m_def)
    have p': "structProperties m U t' (insert t' V) (wrap64 (d + 1)) opts = Some r"
      by (rule structProperties_fuel_mono [OF p]) (simp add: m_def)
    have "\<exists>res. JsonTypeOf (Suc m) U ty V d opts = Some res"
      unfolding JsonTypeOf_Struct [OF nd d' struct] p'
      by (cases r) (simp split: sum.splits prod.splits)
    then show ?thesis by blast
  qed
qed

text \<open>
  With \<^verbatim>\<open>MaxDepth\<close> below the largest \<^verbatim>\<open>int\<close>, a depth that is not above \<^verbatim>\<open>MaxDepth\<close>
  has a next depth that is one more, so the distance to \<open>MaxDepth + 1\<close> goes down with
  every level, and beyond \<^verbatim>\<open>MaxDepth\<close> the call returns at once.
\<close>

lemma JsonTypeOf_returns_in_range:
  assumes dr: "\<And>ty. \<exists>n t'. deref n U ty = Some t'"
    and rk: "\<And>ty f. Kind (U ty) = Struct \<Longrightarrow> f \<in> set (Fields (U ty)) \<Longrightarrow> PkgPath f = '''' \<Longrightarrow>
               Anonymous f \<Longrightarrow> Kind (U (Type f)) = Struct \<Longrightarrow> (rk (Type f) :: nat) < rk ty"
    and md: "MaxDepth opts < MaxInt64"
  shows "- (2 ^ 63) \<le> d \<Longrightarrow> nat (MaxDepth opts + 1 - d) \<le> k \<Longrightarrow>
         \<exists>n res. JsonTypeOf n U ty V d opts = Some res"
proof (induction k arbitrary: d ty V)
  case 0
  then have "MaxDepth opts < d" by simp
  then have "JsonTypeOf (Suc 0) U ty V d opts = Some (Inl ErrCircularRef, V)"
    by (rule JsonTypeOf_depth)
  then show ?case by blast
next
  case (Suc k)
  show ?case
  proof (cases "MaxDepth opts < d")
    case True
    then have "JsonTypeOf (Suc 0) U ty V d opts = Some (Inl ErrCircularRef, V)"
      by (rule JsonTypeOf_depth)
    then show ?thesis by blast
  next
    case nd: False
    with md have up: "d + 1 < 2 ^ 63" by (simp add: MaxInt64_def)
    from Suc.prems(1) have low: "- (2 ^ 63) \<le> d + 1" by simp
    from low up have w: "wrap64 (d + 1) = d + 1" by (rule wrap64_id)
    from nd Suc.prems(2) have "nat (MaxDepth opts + 1 - (d + 1)) \<le> k" by simp
    with low have jt: "\<exists>n res. JsonTypeOf n U ty' V' (d + 1) opts = Some res" for ty' V'
      by (rule Suc.IH)
    have jt': "\<exists>n res. JsonTypeOf n U ty' V' (wrap64 (d + 1)) opts = Some res" for ty' V'
      unfolding w by (rule jt)
    show ?thesis
      by (rule JsonTypeOf_returns_step [where U = U and rk = rk and d = d, OF dr rk])
         (assumption | rule jt')+
  qed
qed

text \<open>
  Whatever depth a call starts from, the next depth is an \<^verbatim>\<open>int\<close>.
\<close>

lemma JsonTypeOf_returns:
  assumes dr: "\<And>ty. \<exists>n t'. deref n U ty = Some t'"
    and rk: "\<And>ty f. Kind (U ty) = Struct \<Longrightarrow> f \<in> set (Fields (U ty)) \<Longrightarrow> PkgPath f = '''' \<Longrightarrow>
               Anonymous f \<Longrightarrow> Kind (U (Type f)) = Struct \<Longrightarrow> (rk (Type f) :: nat) < rk ty"
    and md: "MaxDepth opts < MaxInt64"
  shows "\<exists>n res. JsonTypeOf n U ty V d opts = Some res"
proof -
  from wrap64_range [of "d + 1"] have low: "- (2 ^ 63) \<le> wrap64 (d + 1)" by simp
  have jt: "\<exists>n res. JsonTypeOf n U ty' V' (wrap64 (d + 1)) opts = Some res" for ty' V'
    by (rule JsonTypeOf_returns_in_range
          [where U = U and rk = rk and k = "nat (MaxDepth opts + 1 - wrap64 (d + 1))",
           OF dr rk md low])
       simp_all
  show ?thesis
    by (rule JsonTypeOf_returns_step [where U = U and rk = rk and d = d, OF dr rk])
       (assumption | rule jt)+
qed

text \<open>
  On \<^verbatim>\<open>type P *P\<close> the loop of \<^verbatim>\<open>deref\<close> goes from \<^verbatim>\<open>P\<close> to \<^verbatim>\<open>P\<close> forever, and so does
  every call that reaches it.
\<close>

lemma deref_pointer_cycle: "deref n pointer_cycle 2 = None"
  by (induction n) (simp_all add: pointer_cycle_def elemType_def)

lemma JsonTypeOf_pointer_cycle:
  "\<not> MaxDepth opts < d \<Longrightarrow> JsonTypeOf n pointer_cycle 2 V d opts = None"
  by (cases n) (simp_all add: JsonTypeOf_deref_None deref_pointer_cycle)

lemma structFields_pointer_cycle:
  "\<not> MaxDepth opts < d \<Longrightarrow>
   structFields n pointer_cycle [named ''P'' 2 ''p''] P R V d opts = None"
  by (cases n)
     (simp_all add: structFields.simps(2) named_def JsonTypeOf_pointer_cycle
        split: prod.splits)

lemma structProperties_pointer_cycle:
  "\<not> MaxDepth opts < d \<Longrightarrow> structProperties n pointer_cycle 3 V d opts = None"
  by (cases n)
     (simp_all add: structFields_pointer_cycle pointer_cycle_def structType_def)

text \<open>
  With \<^verbatim>\<open>MaxDepth\<close> the largest \<^verbatim>\<open>int\<close> no depth is above \<^verbatim>\<open>MaxDepth\<close>, the depth after
  the largest being the smallest. \<^verbatim>\<open>type S []S\<close> is no struct, so it is never looked up
  in \<^verbatim>\<open>visited\<close>, and the calls on it go on forever.
\<close>

lemma slice_cycle_never_returns:
  "d \<le> MaxInt64 \<Longrightarrow>
   JsonTypeOf n slice_cycle 2 V d MaxInt64Options = None
   \<and> parseArrayItemType n slice_cycle 2 V d MaxInt64Options = None"
proof (induction n arbitrary: d V)
  case 0
  show ?case by simp
next
  case (Suc n)
  have k: "Kind (slice_cycle 2) = Slice" and e: "Elem (slice_cycle 2) = 2"
    by (simp_all add: slice_cycle_def elemType_def)
  from Suc.prems have nd: "\<not> MaxDepth MaxInt64Options < d"
    by (simp add: MaxInt64Options_def)
  from k have dr: "deref n slice_cycle 2 = Some 2" by (simp add: deref_no_Pointer)
  from k have seq: "Kind (slice_cycle 2) \<in> {Slice, Array}"
    and el: "Kind (slice_cycle 2) \<in> {Array, Chan, Map, Pointer, Slice}" by simp_all
  from wrap64_range [of "d + 1"] have "wrap64 (d + 1) \<le> MaxInt64" by (simp add: MaxInt64_def)
  from Suc.IH [OF this]
  have pa: "parseArrayItemType n slice_cycle 2 V (wrap64 (d + 1)) MaxInt64Options = None"
    by simp
  from Suc.IH [OF Suc.prems]
  have jt: "JsonTypeOf n slice_cycle 2 V d MaxInt64Options = None" by simp
  have "JsonTypeOf (Suc n) slice_cycle 2 V d MaxInt64Options = None"
    unfolding JsonTypeOf_array [OF nd dr seq] pa by simp
  moreover have "parseArrayItemType (Suc n) slice_cycle 2 V d MaxInt64Options = None"
    unfolding parseArrayItemType_elem [of slice_cycle 2, OF el] e jt by simp
  ultimately show ?case ..
qed

section \<open>Evaluating the examples\<close>

lemmas eval_conversion =
  fuel_def JsonTypeOf.simps(2) parseArrayItemType.simps(2) structFields.simps(2)
  parseJSONTag_def DefaultOptions_def wrap64_def
  fixtures_def pointer_cycle_def basic_def elemType_def structType_def named_def embedded_def

text \<open>
  At the largest depth the element of a slice is converted at the smallest one, which is
  not above any \<^verbatim>\<open>MaxDepth\<close>.
\<close>

lemma JsonTypeOf_depth_wraps:
  "JsonTypeOf fuel fixtures 21 {} MaxInt64 MaxInt64Options
     = Some (Inr (JSchema [''type'' \<mapsto> JString ''array'',
                           ''items'' \<mapsto> JSchema [''type'' \<mapsto> JString ''integer'']]), {})"
  by (simp add: eval_conversion MaxInt64Options_def MaxInt64_def)

section \<open>Claims\<close>

text \<open>
  C8. When a top-level conversion (empty visited set, depth 0) returns, with a schema or
  with an error, the visited set is empty again: every mark set on entry to a struct has
  been removed on the way out.
\<close>

theorem visited_empty_after_conversion:
  "JsonTypeOf n U t {} 0 opts = Some (res, visited') \<Longrightarrow> visited' = {}"
  by (rule JsonTypeOf_visited_restored)

theorem visited_empty_after_conversion_witness:
  "JsonTypeOf fuel fixtures 5 {} 0 DefaultOptions = Some (Inl ErrCircularRef, {})"
proof -
  obtain visited' where
    ret: "JsonTypeOf fuel fixtures 5 {} 0 DefaultOptions = Some (Inl ErrCircularRef, visited')"
    by (simp add: eval_conversion)
  from visited_empty_after_conversion [OF ret] ret show ?thesis by simp
qed

text \<open>
  C10. A successful call of \<^verbatim>\<open>JsonTypeOf\<close> returns one of the four primitive names or a
  \<^verbatim>\<open>Schema\<close>, and a successful call of \<^verbatim>\<open>parseArrayItemType\<close> returns a \<^verbatim>\<open>Schema\<close>;
  so the \<^verbatim>\<open>default\<close> branches of the two type switches are never taken on the result of
  a successful recursive call.
\<close>

theorem result_is_name_or_schema:
  "(JsonTypeOf n U t V d opts = Some (Inr v, V') \<longrightarrow>
      (\<exists>s \<in> {''string'', ''boolean'', ''integer'', ''number''}. v = JString s)
      \<or> (\<exists>s. v = JSchema s))
   \<and> (parseArrayItemType n U t V d opts = Some (Inr v, V') \<longrightarrow> (\<exists>s. v = JSchema s))"
  using JsonTypeOf_result_shape [of n U t V d opts v V']
    parseArrayItemType_result_shape [of n U t V d opts v V']
  by blast

theorem result_is_name_or_schema_witness:
  "JsonTypeOf fuel fixtures 1 {} 0 DefaultOptions = Some (Inr (JString ''integer''), {})
   \<and> parseArrayItemType fuel fixtures 21 {} 1 DefaultOptions
       = Some (Inr (JSchema [''type'' \<mapsto> JString ''integer'']), {})
   \<and> ((\<exists>s \<in> {''string'', ''boolean'', ''integer'', ''number''}. JString ''integer'' = JString s)
       \<or> (\<exists>s. JString ''integer'' = JSchema s))"
proof -
  have a: "JsonTypeOf fuel fixtures 1 {} 0 DefaultOptions = Some (Inr (JString ''integer''), {})"
    by (simp add: eval_conversion)
  have b: "parseArrayItemType fuel fixtures 21 {} 1 DefaultOptions
             = Some (Inr (JSchema [''type'' \<mapsto> JString ''integer'']), {})"
    by (simp add: eval_conversion)
  from result_is_name_or_schema
    [of fuel fixtures 1 "{}" 0 DefaultOptions "JString ''integer''" "{}"] a b
  show ?thesis by blast
qed

text \<open>
  C7. A call of \<^verbatim>\<open>JsonTypeOf\<close> with \<open>depth > MaxDepth\<close> fails with \<^verbatim>\<open>ErrCircularRef\<close>
  before anything else is looked at: whatever the type is (a primitive, an array, a type
  whose pointers never end) and whatever was visited. With \<open>MaxDepth = 0\<close> a struct whose
  first field is converted fails with \<^verbatim>\<open>ErrCircularRef\<close>, since its fields are converted
  at depth 1. A conversion that succeeds under some \<open>MaxDepth\<close> succeeds with the same
  schema under every larger one.
\<close>

theorem depth_check_first:
  "(MaxDepth opts < depth \<longrightarrow>
      JsonTypeOf (Suc n) U t visited depth opts = Some (Inl ErrCircularRef, visited))
   \<and> (Kind (U t) = Struct \<and> t \<notin> visited \<and> Fields (U t) = f # rest \<and> PkgPath f = ''''
        \<and> \<not> Anonymous f \<and> Tag f \<noteq> ''-'' \<and> MaxDepth opts = 0 \<longrightarrow>
      JsonTypeOf (Suc (Suc (Suc (Suc n)))) U t visited 0 opts
        = Some (Inl ErrCircularRef, visited))
   \<and> (JsonTypeOf n U t visited depth opts = Some (Inr v, visited')
        \<and> MaxDepth opts \<le> MaxDepth opts'
        \<and> AllowAdditionalProperty opts' = AllowAdditionalProperty opts \<longrightarrow>
      JsonTypeOf n U t visited depth opts' = Some (Inr v, visited'))"
proof (intro conjI impI)
  assume "MaxDepth opts < depth"
  then show "JsonTypeOf (Suc n) U t visited depth opts = Some (Inl ErrCircularRef, visited)"
    by (rule JsonTypeOf_depth)
next
  assume a: "Kind (U t) = Struct \<and> t \<notin> visited \<and> Fields (U t) = f # rest \<and> PkgPath f = ''''
        \<and> \<not> Anonymous f \<and> Tag f \<noteq> ''-'' \<and> MaxDepth opts = 0"
  then have nd: "\<not> MaxDepth opts < 0" and deep: "MaxDepth opts < 1" by simp_all
  from a have dr: "deref (Suc (Suc (Suc n))) U t = Some t" by (simp add: deref_no_Pointer)
  obtain fieldName isOptional where
    tag: "parseJSONTag (Name f) (Tag f) = (fieldName, isOptional)"
    by (cases "parseJSONTag (Name f) (Tag f)")
  from a have f: "PkgPath f = ''''" "\<not> Anonymous f" "Tag f \<noteq> ''-''" by simp_all
  have w: "wrap64 1 = 1" by (simp add: wrap64_def)
  have "structProperties (Suc (Suc (Suc n))) U t (insert t visited) (wrap64 (0 + 1)) opts
          = Some (Inl ErrCircularRef, insert t visited)"
    using a by (simp add: w structFields_field [OF f tag] JsonTypeOf_depth [OF deep])
  with a show "JsonTypeOf (Suc (Suc (Suc (Suc n)))) U t visited 0 opts
                 = Some (Inl ErrCircularRef, visited)"
    by (simp add: w JsonTypeOf_Struct [OF nd dr])
next
  assume "JsonTypeOf n U t visited depth opts = Some (Inr v, visited')
        \<and> MaxDepth opts \<le> MaxDepth opts'
        \<and> AllowAdditionalProperty opts' = AllowAdditionalProperty opts"
  then show "JsonTypeOf n U t visited depth opts' = Some (Inr v, visited')"
    using JsonTypeOf_MaxDepth_mono [of n U t visited depth opts v visited' opts']
    by (simp add: deeper_def)
qed

theorem depth_check_first_witness:
  "JsonTypeOf (Suc 0) fixtures 21 {} 1 \<lparr>AllowAdditionalProperty = False, MaxDepth = 0\<rparr>
     = Some (Inl ErrCircularRef, {})
   \<and> JsonTypeOf (Suc (Suc (Suc (Suc 0)))) fixtures 18 {} 0
       \<lparr>AllowAdditionalProperty = False, MaxDepth = 0\<rparr>
     = Some (Inl ErrCircularRef, {})
   \<and> JsonTypeOf fuel fixtures 18 {} 0 \<lparr>AllowAdditionalProperty = False, MaxDepth = 2\<rparr>
     = Some (Inr (JSchema
          [''type'' \<mapsto> JString ''object'',
           ''properties'' \<mapsto> JSchema
             [''inner'' \<mapsto> JSchema
                [''type'' \<mapsto> JString ''object'',
                 ''properties'' \<mapsto> JSchema [''value'' \<mapsto> JSchema [''type'' \<mapsto> JString ''string'']],
                 ''additionalProperties'' \<mapsto> JBool False,
                 ''required'' \<mapsto> JStrings [''value'']]],
           ''additionalProperties'' \<mapsto> JBool False,
           ''required'' \<mapsto> JStrings [''inner'']]), {})
   \<and> JsonTypeOf fuel fixtures 18 {} 0 DefaultOptions
     = Some (Inr (JSchema
          [''type'' \<mapsto> JString ''object'',
           ''properties'' \<mapsto> JSchema
             [''inner'' \<mapsto> JSchema
                [''type'' \<mapsto> JString ''object'',
                 ''properties'' \<mapsto> JSchema [''value'' \<mapsto> JSchema [''type'' \<mapsto> JString ''string'']],
                 ''additionalProperties'' \<mapsto> JBool False,
                 ''required'' \<mapsto> JStrings [''value'']]],
           ''additionalProperties'' \<mapsto> JBool False,
           ''required'' \<mapsto> JStrings [''inner'']]), {})"
proof -
  have two: "JsonTypeOf fuel fixtures 18 {} 0 \<lparr>AllowAdditionalProperty = False, MaxDepth = 2\<rparr>
     = Some (Inr (JSchema
          [''type'' \<mapsto> JString ''object'',
           ''properties'' \<mapsto> JSchema
             [''inner'' \<mapsto> JSchema
                [''type'' \<mapsto> JString ''object'',
                 ''properties'' \<mapsto> JSchema [''value'' \<mapsto> JSchema [''type'' \<mapsto> JString ''string'']],
                 ''additionalProperties'' \<mapsto> JBool False,
                 ''required'' \<mapsto> JStrings [''value'']]],
           ''additionalProperties'' \<mapsto> JBool False,
           ''required'' \<mapsto> JStrings [''inner'']]), {})"
    by (simp add: eval_conversion)
  from depth_check_first
         [where opts = "\<lparr>AllowAdditionalProperty = False, MaxDepth = 0\<rparr>" and depth = 1
            and n = 0 and U = fixtures and t = 21 and visited = "{}"]
  have a: "JsonTypeOf (Suc 0) fixtures 21 {} 1 \<lparr>AllowAdditionalProperty = False, MaxDepth = 0\<rparr>
             = Some (Inl ErrCircularRef, {})"
    by simp
  from depth_check_first
         [where opts = "\<lparr>AllowAdditionalProperty = False, MaxDepth = 0\<rparr>"
            and n = 0 and U = fixtures and t = 18 and visited = "{}"
            and f = "named ''Inner'' 19 ''inner''" and rest = "[]"]
  have b: "JsonTypeOf (Suc (Suc (Suc (Suc 0)))) fixtures 18 {} 0
             \<lparr>AllowAdditionalProperty = False, MaxDepth = 0\<rparr>
             = Some (Inl ErrCircularRef, {})"
    by (simp add: fixtures_def structType_def named_def)
  from depth_check_first
         [where opts = "\<lparr>AllowAdditionalProperty = False, MaxDepth = 2\<rparr>"
            and opts' = DefaultOptions and depth = 0 and n = fuel and U = fixtures and t = 18
            and visited = "{}" and visited' = "{}"] two
  have c: "JsonTypeOf fuel fixtures 18 {} 0 DefaultOptions
     = Some (Inr (JSchema
          [''type'' \<mapsto> JString ''object'',
           ''properties'' \<mapsto> JSchema
             [''inner'' \<mapsto> JSchema
                [''type'' \<mapsto> JString ''object'',
                 ''properties'' \<mapsto> JSchema [''value'' \<mapsto> JSchema [''type'' \<mapsto> JString ''string'']],
                 ''additionalProperties'' \<mapsto> JBool False,
                 ''required'' \<mapsto> JStrings [''value'']]],
           ''additionalProperties'' \<mapsto> JBool False,
           ''required'' \<mapsto> JStrings [''inner'']]), {})"
    by (simp add: DefaultOptions_def)
  from a b two c show ?thesis by (intro conjI)
qed


text \<open>
  C4. When the dispatch is reached (the depth is within \<open>MaxDepth\<close> and the pointers have
  been taken off), a string kind gives "string", a bool kind "boolean", each of the ten
  kinds int, int8, ..., int64, uint, uint8, ..., uint64 "integer", both float kinds
  "number", and every kind outside these, slices, arrays and structs fails with
  \<^verbatim>\<open>ErrUnsupportedType\<close> (map, chan, func, interface, complex64, complex128 among them),
  also as the element type of a slice or array.
\<close>

theorem kind_dispatch:
  "\<not> MaxDepth opts < depth \<and> deref n U t = Some t' \<longrightarrow>
     (Kind (U t') = String \<longrightarrow>
        JsonTypeOf (Suc n) U t visited depth opts = Some (Inr (JString ''string''), visited))
     \<and> (Kind (U t') = Bool \<longrightarrow>
        JsonTypeOf (Suc n) U t visited depth opts = Some (Inr (JString ''boolean''), visited))
     \<and> (Kind (U t') \<in> {IntKind, Int8, Int16, Int32, Int64,
                        Uint, Uint8, Uint16, Uint32, Uint64} \<longrightarrow>
        JsonTypeOf (Suc n) U t visited depth opts = Some (Inr (JString ''integer''), visited))
     \<and> (Kind (U t') \<in> {Float32, Float64} \<longrightarrow>
        JsonTypeOf (Suc n) U t visited depth opts = Some (Inr (JString ''number''), visited))
     \<and> (Kind (U t') \<notin> {String, Bool, IntKind, Int8, Int16, Int32, Int64,
                        Uint, Uint8, Uint16, Uint32, Uint64, Float32, Float64,
                        Slice, Array, Struct} \<longrightarrow>
        JsonTypeOf (Suc n) U t visited depth opts = Some (Inl ErrUnsupportedType, visited))
     \<and> (Kind (U t') \<in> {Slice, Array} \<and> \<not> MaxDepth opts < wrap64 (depth + 1)
          \<and> deref n U (Elem (U t')) = Some e
          \<and> Kind (U e) \<notin> {String, Bool, IntKind, Int8, Int16, Int32, Int64,
                        Uint, Uint8, Uint16, Uint32, Uint64, Float32, Float64,
                        Slice, Array, Struct} \<longrightarrow>
        JsonTypeOf (Suc (Suc (Suc n))) U t visited depth opts
          = Some (Inl ErrUnsupportedType, visited))"
proof (intro impI conjI)
  assume a: "\<not> MaxDepth opts < depth \<and> deref n U t = Some t'"
  then have nd: "\<not> MaxDepth opts < depth" and dr: "deref n U t = Some t'" by simp_all
  show "JsonTypeOf (Suc n) U t visited depth opts = Some (Inr (JString ''string''), visited)"
    if "Kind (U t') = String"
    using that by (rule JsonTypeOf_String [OF nd dr])
  show "JsonTypeOf (Suc n) U t visited depth opts = Some (Inr (JString ''boolean''), visited)"
    if "Kind (U t') = Bool"
    using that by (rule JsonTypeOf_Bool [OF nd dr])
  show "JsonTypeOf (Suc n) U t visited depth opts = Some (Inr (JString ''integer''), visited)"
    if "Kind (U t') \<in> {IntKind, Int8, Int16, Int32, Int64, Uint, Uint8, Uint16, Uint32, Uint64}"
    using that by (rule JsonTypeOf_integer [OF nd dr])
  show "JsonTypeOf (Suc n) U t visited depth opts = Some (Inr (JString ''number''), visited)"
    if "Kind (U t') \<in> {Float32, Float64}"
    using that by (rule JsonTypeOf_number [OF nd dr])
  have unsupported: "leaf_result k = Inl ErrUnsupportedType"
    if "k \<notin> {String, Bool, IntKind, Int8, Int16, Int32, Int64,
              Uint, Uint8, Uint16, Uint32, Uint64, Float32, Float64, Slice, Array, Struct}"
    for k
    using that by (simp add: leaf_result_def)
  show "JsonTypeOf (Suc n) U t visited depth opts = Some (Inl ErrUnsupportedType, visited)"
    if k: "Kind (U t') \<notin> {String, Bool, IntKind, Int8, Int16, Int32, Int64,
              Uint, Uint8, Uint16, Uint32, Uint64, Float32, Float64, Slice, Array, Struct}"
  proof -
    from k have "Kind (U t') \<notin> {Slice, Array}" "Kind (U t') \<noteq> Struct" by simp_all
    from JsonTypeOf_leaf [OF nd dr this] unsupported [OF k] show ?thesis by simp
  qed
  show "JsonTypeOf (Suc (Suc (Suc n))) U t visited depth opts
          = Some (Inl ErrUnsupportedType, visited)"
    if b: "Kind (U t') \<in> {Slice, Array} \<and> \<not> MaxDepth opts < wrap64 (depth + 1)
          \<and> deref n U (Elem (U t')) = Some e
          \<and> Kind (U e) \<notin> {String, Bool, IntKind, Int8, Int16, Int32, Int64,
                        Uint, Uint8, Uint16, Uint32, Uint64, Float32, Float64,
                        Slice, Array, Struct}"
  proof -
    from b have seq: "Kind (U t') \<in> {Slice, Array}" and nd1: "\<not> MaxDepth opts < wrap64 (depth + 1)"
      and dre: "deref n U (Elem (U t')) = Some e"
      and k: "Kind (U e) \<notin> {String, Bool, IntKind, Int8, Int16, Int32, Int64,
                        Uint, Uint8, Uint16, Uint32, Uint64, Float32, Float64,
                        Slice, Array, Struct}"
      by simp_all
    from k have "Kind (U e) \<notin> {Slice, Array}" "Kind (U e) \<noteq> Struct" by simp_all
    from JsonTypeOf_leaf [OF nd1 dre this] unsupported [OF k]
    have el: "JsonTypeOf (Suc n) U (Elem (U t')) visited (wrap64 (depth + 1)) opts
                = Some (Inl ErrUnsupportedType, visited)"
      by simp
    from seq have has_elem: "Kind (U t') \<in> {Array, Chan, Map, Pointer, Slice}" by auto
    have pa: "parseArrayItemType (Suc (Suc n)) U t' visited (wrap64 (depth + 1)) opts
                = Some (Inl ErrUnsupportedType, visited)"
      unfolding parseArrayItemType_elem [of U t', OF has_elem] el by simp
    have dr2: "deref (Suc (Suc n)) U t = Some t'"
      by (rule deref_mono [OF dr]) simp
    show ?thesis
      unfolding JsonTypeOf_array [OF nd dr2 seq] pa by simp
  qed
qed

theorem kind_dispatch_witness:
  "JsonTypeOf (Suc 0) fixtures 1 {} 0 DefaultOptions = Some (Inr (JString ''integer''), {})
   \<and> JsonTypeOf (Suc 0) fixtures 3 {} 0 DefaultOptions = Some (Inr (JString ''number''), {})
   \<and> JsonTypeOf (Suc 0) fixtures 4 {} 0 DefaultOptions = Some (Inl ErrUnsupportedType, {})
   \<and> JsonTypeOf (Suc (Suc (Suc 0))) fixtures 9 {} 0 DefaultOptions
       = Some (Inl ErrUnsupportedType, {})"
proof -
  from kind_dispatch [where opts = DefaultOptions and depth = 0 and n = 0 and U = fixtures
      and t = 1 and t' = 1 and visited = "{}"]
  have a: "JsonTypeOf (Suc 0) fixtures 1 {} 0 DefaultOptions
             = Some (Inr (JString ''integer''), {})"
    by (simp add: fixtures_def basic_def DefaultOptions_def)
  from kind_dispatch [where opts = DefaultOptions and depth = 0 and n = 0 and U = fixtures
      and t = 3 and t' = 3 and visited = "{}"]
  have b: "JsonTypeOf (Suc 0) fixtures 3 {} 0 DefaultOptions
             = Some (Inr (JString ''number''), {})"
    by (simp add: fixtures_def basic_def DefaultOptions_def)
  from kind_dispatch [where opts = DefaultOptions and depth = 0 and n = 0 and U = fixtures
      and t = 4 and t' = 4 and visited = "{}"]
  have c: "JsonTypeOf (Suc 0) fixtures 4 {} 0 DefaultOptions
             = Some (Inl ErrUnsupportedType, {})"
    by (simp add: fixtures_def elemType_def DefaultOptions_def)
  from kind_dispatch [where opts = DefaultOptions and depth = 0 and n = 0 and U = fixtures
      and t = 9 and t' = 9 and e = 4 and visited = "{}"]
  have d: "JsonTypeOf (Suc (Suc (Suc 0))) fixtures 9 {} 0 DefaultOptions
             = Some (Inl ErrUnsupportedType, {})"
    by (simp add: fixtures_def elemType_def DefaultOptions_def wrap64_def)
  from a b c d show ?thesis by (intro conjI)
qed

text \<open>
  C5 (amended). An embedded field that is exported and whose type is a struct is
  flattened: when the containing struct converts, its properties are those of the fields
  before the embedded one, overridden by the properties of the embedded struct, overridden
  by those of the fields after it, and its required list is the three lists one after the
  other. The embedded struct is converted by \<^verbatim>\<open>structProperties\<close> at the depth of the
  containing struct, so embedding uses up no nesting level.
\<close>

theorem embedded_fields_merged:
  "structProperties n U t V d opts = Some (Inr (props, required), V')
   \<and> Fields (U t) = pre @ f # post \<and> PkgPath f = '''' \<and> Anonymous f \<longrightarrow>
   (\<exists>m P1 R1 eP eR P2 R2.
      n = Suc (Suc m) \<and> Kind (U (Type f)) = Struct
      \<and> structFields (Suc m) U pre Map.empty [] V d opts = Some (Inr (P1, R1), V)
      \<and> structProperties m U (Type f) V d opts = Some (Inr (eP, eR), V)
      \<and> structFields (Suc m) U post Map.empty [] V d opts = Some (Inr (P2, R2), V)
      \<and> props = P1 ++ eP ++ P2 \<and> required = R1 @ eR @ R2)"
proof
  assume a: "structProperties n U t V d opts = Some (Inr (props, required), V')
   \<and> Fields (U t) = pre @ f # post \<and> PkgPath f = '''' \<and> Anonymous f"
  then have ret: "structProperties n U t V d opts = Some (Inr (props, required), V')"
    and fs: "Fields (U t) = pre @ f # post" and f: "PkgPath f = ''''" "Anonymous f"
    by simp_all
  from ret fs obtain k P1 R1 where k: "n = Suc k"
    and pre: "structFields k U pre Map.empty [] V d opts = Some (Inr (P1, R1), V)"
    and rest: "structFields k U (f # post) P1 R1 V d opts = Some (Inr (props, required), V)"
    by (rule structProperties_split)
  from rest f obtain m eP eR V1 where m: "k = Suc m"
    and emb: "structProperties m U (Type f) V d opts = Some (Inr (eP, eR), V1)"
    and post: "structFields k U post (P1 ++ eP) (R1 @ eR) V1 d opts
                 = Some (Inr (props, required), V)"
    by (cases rule: structFields_ConsE) simp_all
  from emb have V1: "V1 = V" by (rule structProperties_visited_restored)
  from emb have kind: "Kind (U (Type f)) = Struct"
    by (cases rule: structProperties_SomeE) simp_all
  from post obtain P2 R2 where
    "structFields k U post Map.empty [] V1 d opts = Some (Inr (P2, R2), V1)"
    "props = (P1 ++ eP) ++ P2" "required = (R1 @ eR) @ R2"
    by (rule structFields_from_empty)
  with k m pre emb kind V1 show "\<exists>m P1 R1 eP eR P2 R2.
      n = Suc (Suc m) \<and> Kind (U (Type f)) = Struct
      \<and> structFields (Suc m) U pre Map.empty [] V d opts = Some (Inr (P1, R1), V)
      \<and> structProperties m U (Type f) V d opts = Some (Inr (eP, eR), V)
      \<and> structFields (Suc m) U post Map.empty [] V d opts = Some (Inr (P2, R2), V)
      \<and> props = P1 ++ eP ++ P2 \<and> required = R1 @ eR @ R2"
    by (intro exI [of _ m] exI [of _ P1] exI [of _ R1] exI [of _ eP] exI [of _ eR]
          exI [of _ P2] exI [of _ R2]) simp
qed

theorem embedded_fields_merged_witness:
  "\<exists>m P1 R1 eP eR P2 R2.
      fuel = Suc (Suc m) \<and> Kind (fixtures (Type (embedded ''BaseInfo'' '''' 7))) = Struct
      \<and> structFields (Suc m) fixtures [] Map.empty [] {} 1 DefaultOptions
          = Some (Inr (P1, R1), {})
      \<and> structProperties m fixtures (Type (embedded ''BaseInfo'' '''' 7)) {} 1 DefaultOptions
          = Some (Inr (eP, eR), {})
      \<and> structFields (Suc m) fixtures [named ''ID'' 0 ''id''] Map.empty [] {} 1 DefaultOptions
          = Some (Inr (P2, R2), {})
      \<and> [''created_at'' \<mapsto> JSchema [''type'' \<mapsto> JString ''string''],
          ''id'' \<mapsto> JSchema [''type'' \<mapsto> JString ''string'']] = P1 ++ eP ++ P2
      \<and> [''id'', ''created_at'', ''id''] = R1 @ eR @ R2"
proof (rule embedded_fields_merged
    [where n = fuel and U = fixtures and t = 11 and V = "{}" and V' = "{}" and d = 1
       and opts = DefaultOptions and pre = "[]" and f = "embedded ''BaseInfo'' '''' 7"
       and post = "[named ''ID'' 0 ''id'']", THEN mp])
  have "structProperties fuel fixtures 11 {} 1 DefaultOptions
          = Some (Inr ([''created_at'' \<mapsto> JSchema [''type'' \<mapsto> JString ''string''],
                        ''id'' \<mapsto> JSchema [''type'' \<mapsto> JString ''string'']],
                       [''id'', ''created_at'', ''id'']), {})"
    by (simp add: eval_conversion)
  then show "structProperties fuel fixtures 11 {} 1 DefaultOptions
          = Some (Inr ([''created_at'' \<mapsto> JSchema [''type'' \<mapsto> JString ''string''],
                        ''id'' \<mapsto> JSchema [''type'' \<mapsto> JString ''string'']],
                       [''id'', ''created_at'', ''id'']), {})
      \<and> Fields (fixtures 11) = [] @ embedded ''BaseInfo'' '''' 7 # [named ''ID'' 0 ''id'']
      \<and> PkgPath (embedded ''BaseInfo'' '''' 7) = ''''
      \<and> Anonymous (embedded ''BaseInfo'' '''' 7)"
    by (simp add: fixtures_def structType_def embedded_def)
qed

theorem embedded_unexported_counterexample:
  "Fields (fixtures 12) = [embedded ''baseInfo'' ''internal'' 7, named ''Title'' 0 ''title'']
   \<and> Anonymous (embedded ''baseInfo'' ''internal'' 7)
   \<and> structProperties fuel fixtures 7 {} 1 DefaultOptions
       = Some (Inr ([''id'' \<mapsto> JSchema [''type'' \<mapsto> JString ''integer''],
                     ''created_at'' \<mapsto> JSchema [''type'' \<mapsto> JString ''string'']],
                    [''id'', ''created_at'']), {})
   \<and> JsonTypeOf fuel fixtures 12 {} 0 DefaultOptions
       = Some (Inr (JSchema
            [''type'' \<mapsto> JString ''object'',
             ''properties'' \<mapsto> JSchema
               [''title'' \<mapsto> JSchema [''type'' \<mapsto> JString ''string'']],
             ''additionalProperties'' \<mapsto> JBool False,
             ''required'' \<mapsto> JStrings [''title'']]), {})"
  by (simp add: eval_conversion)

text \<open>
  C1. A field that is converted (exported, not embedded, tag other than "-") and whose
  struct converts: its name is in the required list, optional or not, and the property
  stored under its name is, for an optional field, \<open>{"type": [T, "null"]}\<close> when the field's
  schema is the name \<open>T\<close> and \<open>{"anyOf": [S, {"type": "null"}]}\<close> when it is the schema
  \<open>S\<close>; for a field that is not optional it is \<open>{"type": T}\<close> or \<open>S\<close> itself. A later
  field that emits the same name replaces the property.
\<close>

theorem optional_field_null_union:
  "structProperties n U t V d opts = Some (Inr (props, required), V')
   \<and> Fields (U t) = pre @ f # post \<and> PkgPath f = '''' \<and> \<not> Anonymous f \<and> Tag f \<noteq> ''-''
   \<and> parseJSONTag (Name f) (Tag f) = (fieldName, isOptional) \<longrightarrow>
   (\<exists>m fieldSchema e P2 R2.
      n = Suc (Suc m)
      \<and> JsonTypeOf m U (Type f) V d opts = Some (Inr fieldSchema, V)
      \<and> ((\<exists>T. fieldSchema = JString T) \<or> (\<exists>S. fieldSchema = JSchema S))
      \<and> (\<forall>T. fieldSchema = JString T \<longrightarrow>
             e = (if isOptional then JSchema [''type'' \<mapsto> JStrings [T, ''null'']]
                  else JSchema [''type'' \<mapsto> JString T]))
      \<and> (\<forall>S. fieldSchema = JSchema S \<longrightarrow>
             e = (if isOptional
                  then JSchema [''anyOf'' \<mapsto> JSchemas [S, [''type'' \<mapsto> JString ''null'']]]
                  else JSchema S))
      \<and> structFields (Suc m) U post Map.empty [] V d opts = Some (Inr (P2, R2), V)
      \<and> props fieldName = (case P2 fieldName of None \<Rightarrow> Some e | Some later \<Rightarrow> Some later)
      \<and> fieldName \<in> set required)"
proof
  assume a: "structProperties n U t V d opts = Some (Inr (props, required), V')
   \<and> Fields (U t) = pre @ f # post \<and> PkgPath f = '''' \<and> \<not> Anonymous f \<and> Tag f \<noteq> ''-''
   \<and> parseJSONTag (Name f) (Tag f) = (fieldName, isOptional)"
  then have ret: "structProperties n U t V d opts = Some (Inr (props, required), V')"
    and fs: "Fields (U t) = pre @ f # post"
    and f: "PkgPath f = ''''" "\<not> Anonymous f" "Tag f \<noteq> ''-''"
    and tag: "parseJSONTag (Name f) (Tag f) = (fieldName, isOptional)"
    by simp_all
  from ret fs obtain k P1 R1 where k: "n = Suc k"
    and rest: "structFields k U (f # post) P1 R1 V d opts = Some (Inr (props, required), V)"
    by (rule structProperties_split)
  from rest f tag obtain m fieldSchema V1 where m: "k = Suc m"
    and conv: "JsonTypeOf m U (Type f) V d opts = Some (Inr fieldSchema, V1)"
    and post: "structFields k U post (P1(fieldName \<mapsto> fieldProperty isOptional fieldSchema))
                 (R1 @ [fieldName]) V1 d opts = Some (Inr (props, required), V)"
    by (cases rule: structFields_ConsE) (simp_all add: fieldProperty_def)
  from conv have V1: "V1 = V" by (rule JsonTypeOf_visited_restored)
  from JsonTypeOf_result_shape [OF conv]
  have shape: "(\<exists>T. fieldSchema = JString T) \<or> (\<exists>S. fieldSchema = JSchema S)" by blast
  from post obtain P2 R2 where
    p2: "structFields k U post Map.empty [] V1 d opts = Some (Inr (P2, R2), V1)"
    and props: "props = P1(fieldName \<mapsto> fieldProperty isOptional fieldSchema) ++ P2"
    and req: "required = (R1 @ [fieldName]) @ R2"
    by (rule structFields_from_empty)
  from props have look: "props fieldName
      = (case P2 fieldName of None \<Rightarrow> Some (fieldProperty isOptional fieldSchema)
                              | Some later \<Rightarrow> Some later)"
    by (simp add: map_add_def split: option.splits)
  from req have inreq: "fieldName \<in> set required" by simp
  show "\<exists>m fieldSchema e P2 R2.
      n = Suc (Suc m)
      \<and> JsonTypeOf m U (Type f) V d opts = Some (Inr fieldSchema, V)
      \<and> ((\<exists>T. fieldSchema = JString T) \<or> (\<exists>S. fieldSchema = JSchema S))
      \<and> (\<forall>T. fieldSchema = JString T \<longrightarrow>
             e = (if isOptional then JSchema [''type'' \<mapsto> JStrings [T, ''null'']]
                  else JSchema [''type'' \<mapsto> JString T]))
      \<and> (\<forall>S. fieldSchema = JSchema S \<longrightarrow>
             e = (if isOptional
                  then JSchema [''anyOf'' \<mapsto> JSchemas [S, [''type'' \<mapsto> JString ''null'']]]
                  else JSchema S))
      \<and> structFields (Suc m) U post Map.empty [] V d opts = Some (Inr (P2, R2), V)
      \<and> props fieldName = (case P2 fieldName of None \<Rightarrow> Some e | Some later \<Rightarrow> Some later)
      \<and> fieldName \<in> set required"
    using k m conv shape p2 look inreq unfolding V1
    by (intro exI [of _ m] exI [of _ fieldSchema]
          exI [of _ "fieldProperty isOptional fieldSchema"] exI [of _ P2] exI [of _ R2])
       (auto simp: fieldProperty_def)
qed

theorem optional_field_null_union_witness:
  "structProperties fuel fixtures 8 {} 1 DefaultOptions
     = Some (Inr ([''id'' \<mapsto> JSchema [''type'' \<mapsto> JString ''integer''],
                   ''created_at'' \<mapsto> JSchema [''type'' \<mapsto> JString ''string''],
                   ''title'' \<mapsto> JSchema [''type'' \<mapsto> JString ''string''],
                   ''content'' \<mapsto> JSchema [''type'' \<mapsto> JStrings [''string'', ''null'']]],
                  [''id'', ''created_at'', ''title'', ''content'']), {})
   \<and> parseJSONTag ''Content'' ''content,omitempty'' = (''content'', True)
   \<and> ''content'' \<in> set [''id'', ''created_at'', ''title'', ''content'']"
proof -
  have conv: "structProperties fuel fixtures 8 {} 1 DefaultOptions
     = Some (Inr ([''id'' \<mapsto> JSchema [''type'' \<mapsto> JString ''integer''],
                   ''created_at'' \<mapsto> JSchema [''type'' \<mapsto> JString ''string''],
                   ''title'' \<mapsto> JSchema [''type'' \<mapsto> JString ''string''],
                   ''content'' \<mapsto> JSchema [''type'' \<mapsto> JStrings [''string'', ''null'']]],
                  [''id'', ''created_at'', ''title'', ''content'']), {})"
    by (simp add: eval_conversion)
  have tag: "parseJSONTag ''Content'' ''content,omitempty'' = (''content'', True)"
    by (simp add: parseJSONTag_def)
  have "\<exists>m fieldSchema e P2 R2. fuel = Suc (Suc m)
      \<and> JsonTypeOf m fixtures (Type (named ''Content'' 0 ''content,omitempty'')) {} 1
            DefaultOptions = Some (Inr fieldSchema, {})
      \<and> ((\<exists>T. fieldSchema = JString T) \<or> (\<exists>S. fieldSchema = JSchema S))
      \<and> (\<forall>T. fieldSchema = JString T \<longrightarrow>
             e = (if True then JSchema [''type'' \<mapsto> JStrings [T, ''null'']]
                  else JSchema [''type'' \<mapsto> JString T]))
      \<and> (\<forall>S. fieldSchema = JSchema S \<longrightarrow>
             e = (if True
                  then JSchema [''anyOf'' \<mapsto> JSchemas [S, [''type'' \<mapsto> JString ''null'']]]
                  else JSchema S))
      \<and> structFields (Suc m) fixtures [] Map.empty [] {} 1 DefaultOptions
           = Some (Inr (P2, R2), {})
      \<and> [''id'' \<mapsto> JSchema [''type'' \<mapsto> JString ''integer''],
          ''created_at'' \<mapsto> JSchema [''type'' \<mapsto> JString ''string''],
          ''title'' \<mapsto> JSchema [''type'' \<mapsto> JString ''string''],
          ''content'' \<mapsto> JSchema [''type'' \<mapsto> JStrings [''string'', ''null'']]] ''content''
         = (case P2 ''content'' of None \<Rightarrow> Some e | Some later \<Rightarrow> Some later)
      \<and> ''content'' \<in> set [''id'', ''created_at'', ''title'', ''content'']"
  proof (rule optional_field_null_union
      [where n = fuel and U = fixtures and t = 8 and V = "{}" and V' = "{}" and d = 1
         and opts = DefaultOptions
         and pre = "[embedded ''BaseInfo'' '''' 7, named ''Title'' 0 ''title'']"
         and f = "named ''Content'' 0 ''content,omitempty''" and post = "[]"
         and fieldName = "''content''" and isOptional = True
         and props = "[''id'' \<mapsto> JSchema [''type'' \<mapsto> JString ''integer''],
                       ''created_at'' \<mapsto> JSchema [''type'' \<mapsto> JString ''string''],
                       ''title'' \<mapsto> JSchema [''type'' \<mapsto> JString ''string''],
                       ''content'' \<mapsto> JSchema [''type'' \<mapsto> JStrings [''string'', ''null'']]]"
         and required = "[''id'', ''created_at'', ''title'', ''content'']", THEN mp])
    from conv tag show "structProperties fuel fixtures 8 {} 1 DefaultOptions
       = Some (Inr ([''id'' \<mapsto> JSchema [''type'' \<mapsto> JString ''integer''],
                     ''created_at'' \<mapsto> JSchema [''type'' \<mapsto> JString ''string''],
                     ''title'' \<mapsto> JSchema [''type'' \<mapsto> JString ''string''],
                     ''content'' \<mapsto> JSchema [''type'' \<mapsto> JStrings [''string'', ''null'']]],
                    [''id'', ''created_at'', ''title'', ''content'']), {})
      \<and> Fields (fixtures 8)
          = [embedded ''BaseInfo'' '''' 7, named ''Title'' 0 ''title'']
            @ named ''Content'' 0 ''content,omitempty'' # []
      \<and> PkgPath (named ''Content'' 0 ''content,omitempty'') = ''''
      \<and> \<not> Anonymous (named ''Content'' 0 ''content,omitempty'')
      \<and> Tag (named ''Content'' 0 ''content,omitempty'') \<noteq> ''-''
      \<and> parseJSONTag (Name (named ''Content'' 0 ''content,omitempty''))
           (Tag (named ''Content'' 0 ''content,omitempty'')) = (''content'', True)"
      by (simp add: fixtures_def structType_def embedded_def named_def)
  qed
  then have "''content'' \<in> set [''id'', ''created_at'', ''title'', ''content'']"
    by (elim exE conjE)
  with conv tag show ?thesis by (intro conjI)
qed

text \<open>
  C3 (amended). A field that is not embedded and whose whole json tag is "-" is left out:
  the loop gives the same result, for every fuel, as for the field list without it, and
  so does \<^verbatim>\<open>structProperties\<close> for two struct types that differ in this field only; the
  type of the field is never looked at.
\<close>

theorem skipped_field_omitted:
  "\<not> Anonymous f \<and> Tag f = ''-'' \<longrightarrow>
     structFields n U (pre @ f # post) P R V d opts = structFields n U (pre @ post) P R V d opts
     \<and> (Kind (U t) = Struct \<and> Kind (U u) = Struct \<and> Fields (U t) = pre @ f # post
          \<and> Fields (U u) = pre @ post \<longrightarrow>
        structProperties n U t V d opts = structProperties n U u V d opts)"
proof (intro impI conjI)
  assume a: "\<not> Anonymous f \<and> Tag f = ''-''"
  have skip: "structFields n U (f # post) P' R' V' d opts = structFields n U post P' R' V' d opts"
    for n P' R' V'
    using a by (cases "PkgPath f = ''''") (simp_all add: structFields_skip structFields_unexported)
  show eq: "structFields n U (pre @ f # post) P R V d opts
          = structFields n U (pre @ post) P R V d opts" for n P R
    unfolding structFields_append skip ..
  show "structProperties n U t V d opts = structProperties n U u V d opts"
    if "Kind (U t) = Struct \<and> Kind (U u) = Struct \<and> Fields (U t) = pre @ f # post
          \<and> Fields (U u) = pre @ post"
    using that eq by (cases n) simp_all
qed

theorem skipped_field_omitted_witness:
  "structProperties fuel fixtures 14 {} 1 DefaultOptions
     = structProperties fuel fixtures 23 {} 1 DefaultOptions
   \<and> structProperties fuel fixtures 23 {} 1 DefaultOptions
     = Some (Inr ([''name'' \<mapsto> JSchema [''type'' \<mapsto> JString ''string'']], [''name'']), {})"
proof -
  have "\<not> Anonymous (named ''Cache'' 4 ''-'') \<and> Tag (named ''Cache'' 4 ''-'') = ''-''"
    by (simp add: named_def)
  from skipped_field_omitted
         [where f = "named ''Cache'' 4 ''-''" and pre = "[named ''Name'' 0 ''name'']"
            and post = "[]" and U = fixtures and t = 14 and u = 23 and n = fuel
            and V = "{}" and d = 1 and opts = DefaultOptions, THEN mp, OF this]
  have "structProperties fuel fixtures 14 {} 1 DefaultOptions
          = structProperties fuel fixtures 23 {} 1 DefaultOptions"
    by (simp add: fixtures_def structType_def)
  moreover have "structProperties fuel fixtures 23 {} 1 DefaultOptions
     = Some (Inr ([''name'' \<mapsto> JSchema [''type'' \<mapsto> JString ''string'']], [''name'']), {})"
    by (simp add: eval_conversion)
  ultimately show ?thesis by (intro conjI)
qed

theorem dash_omitempty_counterexample:
  "Fields (fixtures 13) = [named ''Secret'' 0 ''-,omitempty'']
   \<and> Split ''-,omitempty'' (CHR '','') = [''-'', ''omitempty'']
   \<and> JsonTypeOf fuel fixtures 13 {} 0 DefaultOptions
       = Some (Inr (JSchema
            [''type'' \<mapsto> JString ''object'',
             ''properties'' \<mapsto> JSchema
               [''-'' \<mapsto> JSchema [''type'' \<mapsto> JStrings [''string'', ''null'']]],
             ''additionalProperties'' \<mapsto> JBool False,
             ''required'' \<mapsto> JStrings [''-'']]), {})"
  by (simp add: eval_conversion)

text \<open>
  C2 (amended). When a struct type converts, the names in the required list are exactly
  the keys of the properties; the list is attached to the object schema when it is not
  empty. A name can be in the list more than once.
\<close>

theorem required_names_are_property_names:
  "JsonTypeOf n U t V d opts = Some (Inr v, V') \<and> deref n U t = Some t'
   \<and> Kind (U t') = Struct \<longrightarrow>
   (\<exists>m props required.
      n = Suc m
      \<and> structProperties m U t' (insert t' V) (wrap64 (d + 1)) opts
          = Some (Inr (props, required), insert t' V)
      \<and> set required = dom props
      \<and> (\<exists>s. v = JSchema s \<and> s ''type'' = Some (JString ''object'')
            \<and> s ''properties'' = Some (JSchema props)
            \<and> s ''required'' = (if required = [] then None else Some (JStrings required))))"
proof
  assume a: "JsonTypeOf n U t V d opts = Some (Inr v, V') \<and> deref n U t = Some t'
   \<and> Kind (U t') = Struct"
  then have ret: "JsonTypeOf n U t V d opts = Some (Inr v, V')"
    and dr: "deref n U t = Some t'" and k: "Kind (U t') = Struct"
    by simp_all
  have same: "t'' = t'" if "n = Suc m" "deref m U t = Some t''" for m t''
    using deref_mono [OF that(2), of n] dr that(1) by simp
  from ret show "\<exists>m props required.
      n = Suc m
      \<and> structProperties m U t' (insert t' V) (wrap64 (d + 1)) opts
          = Some (Inr (props, required), insert t' V)
      \<and> set required = dom props
      \<and> (\<exists>s. v = JSchema s \<and> s ''type'' = Some (JString ''object'')
            \<and> s ''properties'' = Some (JSchema props)
            \<and> s ''required'' = (if required = [] then None else Some (JStrings required)))"
  proof (cases rule: JsonTypeOf_SomeE)
    case (leaf m t'')
    from same [OF leaf(1,3)] leaf(5) k show ?thesis by simp
  next
    case (array m t'' items V'')
    from same [OF array(1,3)] array(4) k show ?thesis by simp
  next
    case (struct m t'' props required V'')
    from same [OF struct(1,3)] have t'': "t'' = t'" .
    note call = struct(6) [unfolded t'']
    from call have V'': "V'' = insert t' V" by (rule structProperties_visited_restored)
    from call have "set required = dom props" by (rule structProperties_required_is_dom)
    with struct(1,7) call show ?thesis
      unfolding V'' t''
      by (intro exI [of _ m] exI [of _ props] exI [of _ required]) auto
  qed simp_all
qed

theorem required_names_are_property_names_witness:
  "\<exists>m props required.
      fuel = Suc m
      \<and> structProperties m fixtures 8 (insert 8 {}) (wrap64 (0 + 1)) DefaultOptions
          = Some (Inr (props, required), insert 8 {})
      \<and> set required = dom props
      \<and> (\<exists>s. JSchema
            [''type'' \<mapsto> JString ''object'',
             ''properties'' \<mapsto> JSchema
               [''id'' \<mapsto> JSchema [''type'' \<mapsto> JString ''integer''],
                ''created_at'' \<mapsto> JSchema [''type'' \<mapsto> JString ''string''],
                ''title'' \<mapsto> JSchema [''type'' \<mapsto> JString ''string''],
                ''content'' \<mapsto> JSchema [''type'' \<mapsto> JStrings [''string'', ''null'']]],
             ''additionalProperties'' \<mapsto> JBool False,
             ''required'' \<mapsto> JStrings [''id'', ''created_at'', ''title'', ''content'']]
             = JSchema s
            \<and> s ''type'' = Some (JString ''object'')
            \<and> s ''properties'' = Some (JSchema props)
            \<and> s ''required'' = (if required = [] then None else Some (JStrings required)))"
proof (rule required_names_are_property_names
    [where n = fuel and U = fixtures and t = 8 and t' = 8 and V = "{}" and V' = "{}"
       and d = 0 and opts = DefaultOptions, THEN mp])
  show "JsonTypeOf fuel fixtures 8 {} 0 DefaultOptions
      = Some (Inr (JSchema
            [''type'' \<mapsto> JString ''object'',
             ''properties'' \<mapsto> JSchema
               [''id'' \<mapsto> JSchema [''type'' \<mapsto> JString ''integer''],
                ''created_at'' \<mapsto> JSchema [''type'' \<mapsto> JString ''string''],
                ''title'' \<mapsto> JSchema [''type'' \<mapsto> JString ''string''],
                ''content'' \<mapsto> JSchema [''type'' \<mapsto> JStrings [''string'', ''null'']]],
             ''additionalProperties'' \<mapsto> JBool False,
             ''required'' \<mapsto> JStrings [''id'', ''created_at'', ''title'', ''content'']]), {})
    \<and> deref fuel fixtures 8 = Some 8 \<and> Kind (fixtures 8) = Struct"
    by (simp add: eval_conversion)
qed

theorem required_duplicate_counterexample:
  "JsonTypeOf fuel fixtures 11 {} 0 DefaultOptions
     = Some (Inr (JSchema
          [''type'' \<mapsto> JString ''object'',
           ''properties'' \<mapsto> JSchema
             [''created_at'' \<mapsto> JSchema [''type'' \<mapsto> JString ''string''],
              ''id'' \<mapsto> JSchema [''type'' \<mapsto> JString ''string'']],
           ''additionalProperties'' \<mapsto> JBool False,
           ''required'' \<mapsto> JStrings [''id'', ''created_at'', ''id'']]), {})
   \<and> \<not> distinct [''id'', ''created_at'', ''id'']"
  by (simp add: eval_conversion)

text \<open>
  C6 (amended). A struct with a converted field (exported, not embedded, tag other than
  "-") whose type leads back to the struct through pointers fails with
  \<^verbatim>\<open>ErrCircularRef\<close> when the fields before it convert. A type that a call has converted
  can be converted again by the next call with the same result: the visited set is what it
  was, so two sibling fields of one struct type are both accepted.
\<close>

theorem circular_reference_detected:
  "(Kind (U t) = Struct \<and> Fields (U t) = pre @ f # post \<and> PkgPath f = '''' \<and> \<not> Anonymous f
      \<and> Tag f \<noteq> ''-'' \<and> deref n U (Type f) = Some t
      \<and> structFields (Suc (Suc n)) U pre Map.empty [] (insert t V) (wrap64 (d + 1)) opts
          = Some (Inr (P1, R1), V1) \<longrightarrow>
    JsonTypeOf (Suc (Suc (Suc (Suc n)))) U t V d opts = Some (Inl ErrCircularRef, V))
   \<and> (JsonTypeOf m U s V d opts = Some (Inr v, V') \<longrightarrow>
        JsonTypeOf m U s V' d opts = Some (Inr v, V'))"
proof (intro conjI impI)
  assume "JsonTypeOf m U s V d opts = Some (Inr v, V')"
  then show "JsonTypeOf m U s V' d opts = Some (Inr v, V')"
    using JsonTypeOf_visited_restored [of m U s V d opts "Inr v" V'] by simp
next
  assume a: "Kind (U t) = Struct \<and> Fields (U t) = pre @ f # post \<and> PkgPath f = ''''
      \<and> \<not> Anonymous f \<and> Tag f \<noteq> ''-'' \<and> deref n U (Type f) = Some t
      \<and> structFields (Suc (Suc n)) U pre Map.empty [] (insert t V) (wrap64 (d + 1)) opts
          = Some (Inr (P1, R1), V1)"
  then have k: "Kind (U t) = Struct" and fs: "Fields (U t) = pre @ f # post"
    and f: "PkgPath f = ''''" "\<not> Anonymous f" "Tag f \<noteq> ''-''"
    and cyc: "deref n U (Type f) = Some t"
    and pre: "structFields (Suc (Suc n)) U pre Map.empty [] (insert t V) (wrap64 (d + 1)) opts
                = Some (Inr (P1, R1), V1)"
    by simp_all
  from pre have V1: "V1 = insert t V" by (rule structFields_visited_restored)
  obtain fieldName isOptional where
    tag: "parseJSONTag (Name f) (Tag f) = (fieldName, isOptional)"
    by (cases "parseJSONTag (Name f) (Tag f)")
  have field: "JsonTypeOf (Suc n) U (Type f) (insert t V) (wrap64 (d + 1)) opts
                 = Some (Inl ErrCircularRef, insert t V)"
  proof (cases "MaxDepth opts < wrap64 (d + 1)")
    case True
    then show ?thesis by (rule JsonTypeOf_depth)
  next
    case False
    show ?thesis by (rule JsonTypeOf_visited [OF False cyc k]) simp
  qed
  have loop: "structFields (Suc (Suc n)) U (pre @ f # post) Map.empty [] (insert t V) (wrap64 (d + 1)) opts
                = Some (Inl ErrCircularRef, insert t V)"
    unfolding structFields_append pre and_then_simps V1 structFields_field [OF f tag] field
    by simp
  from k have dr: "deref (Suc (Suc (Suc n))) U t = Some t" by (simp add: deref_no_Pointer)
  show "JsonTypeOf (Suc (Suc (Suc (Suc n)))) U t V d opts = Some (Inl ErrCircularRef, V)"
  proof (cases "MaxDepth opts < d")
    case True
    then show ?thesis by (rule JsonTypeOf_depth)
  next
    case nd: False
    show ?thesis
    proof (cases "t \<in> V")
      case True
      show ?thesis by (rule JsonTypeOf_visited [OF nd dr k True])
    next
      case False
      have "structProperties (Suc (Suc (Suc n))) U t (insert t V) (wrap64 (d + 1)) opts
              = Some (Inl ErrCircularRef, insert t V)"
        using k loop by (simp add: fs)
      then show ?thesis
        unfolding JsonTypeOf_Struct [OF nd dr k False] using False by simp
    qed
  qed
qed

theorem circular_reference_detected_witness:
  "JsonTypeOf (Suc (Suc (Suc (Suc (Suc 0))))) fixtures 5 {} 0 DefaultOptions
     = Some (Inl ErrCircularRef, {})
   \<and> JsonTypeOf fuel fixtures 7 {17} 1 DefaultOptions
     = Some (Inr (JSchema
          [''type'' \<mapsto> JString ''object'',
           ''properties'' \<mapsto> JSchema
             [''id'' \<mapsto> JSchema [''type'' \<mapsto> JString ''integer''],
              ''created_at'' \<mapsto> JSchema [''type'' \<mapsto> JString ''string'']],
           ''additionalProperties'' \<mapsto> JBool False,
           ''required'' \<mapsto> JStrings [''id'', ''created_at'']]), {17})
   \<and> JsonTypeOf fuel fixtures 17 {} 0 DefaultOptions
     = Some (Inr (JSchema
        [''type'' \<mapsto> JString ''object'',
         ''properties'' \<mapsto> JSchema
           [''first'' \<mapsto> JSchema
              [''type'' \<mapsto> JString ''object'',
               ''properties'' \<mapsto> JSchema
                 [''id'' \<mapsto> JSchema [''type'' \<mapsto> JString ''integer''],
                  ''created_at'' \<mapsto> JSchema [''type'' \<mapsto> JString ''string'']],
               ''additionalProperties'' \<mapsto> JBool False,
               ''required'' \<mapsto> JStrings [''id'', ''created_at'']],
            ''second'' \<mapsto> JSchema
              [''type'' \<mapsto> JString ''object'',
               ''properties'' \<mapsto> JSchema
                 [''id'' \<mapsto> JSchema [''type'' \<mapsto> JString ''integer''],
                  ''created_at'' \<mapsto> JSchema [''type'' \<mapsto> JString ''string'']],
               ''additionalProperties'' \<mapsto> JBool False,
               ''required'' \<mapsto> JStrings [''id'', ''created_at'']]],
         ''additionalProperties'' \<mapsto> JBool False,
         ''required'' \<mapsto> JStrings [''first'', ''second'']]), {})"
proof (intro conjI)
  show "JsonTypeOf (Suc (Suc (Suc (Suc (Suc 0))))) fixtures 5 {} 0 DefaultOptions
          = Some (Inl ErrCircularRef, {})"
    by (rule circular_reference_detected
          [where U = fixtures and t = 5 and pre = "[named ''Value'' 0 ''value'']"
             and f = "named ''Next'' 6 ''next,omitempty''" and post = "[]" and n = "Suc 0"
             and V = "{}" and d = 0 and opts = DefaultOptions
             and ?P1.0 = "[''value'' \<mapsto> JSchema [''type'' \<mapsto> JString ''string'']]"
             and ?R1.0 = "[''value'']" and ?V1.0 = "insert 5 {}", THEN conjunct1, THEN mp])
       (simp add: eval_conversion)
  have first: "JsonTypeOf fuel fixtures 7 {17} 1 DefaultOptions
     = Some (Inr (JSchema
          [''type'' \<mapsto> JString ''object'',
           ''properties'' \<mapsto> JSchema
             [''id'' \<mapsto> JSchema [''type'' \<mapsto> JString ''integer''],
              ''created_at'' \<mapsto> JSchema [''type'' \<mapsto> JString ''string'']],
           ''additionalProperties'' \<mapsto> JBool False,
           ''required'' \<mapsto> JStrings [''id'', ''created_at'']]), {17})"
    by (simp add: eval_conversion)
  from circular_reference_detected
         [where m = fuel and U = fixtures and s = 7 and V = "{17}" and V' = "{17}" and d = 1
            and opts = DefaultOptions, THEN conjunct2, THEN mp, OF first]
  show "JsonTypeOf fuel fixtures 7 {17} 1 DefaultOptions
     = Some (Inr (JSchema
          [''type'' \<mapsto> JString ''object'',
           ''properties'' \<mapsto> JSchema
             [''id'' \<mapsto> JSchema [''type'' \<mapsto> JString ''integer''],
              ''created_at'' \<mapsto> JSchema [''type'' \<mapsto> JString ''string'']],
           ''additionalProperties'' \<mapsto> JBool False,
           ''required'' \<mapsto> JStrings [''id'', ''created_at'']]), {17})" .
  show "JsonTypeOf fuel fixtures 17 {} 0 DefaultOptions
     = Some (Inr (JSchema
        [''type'' \<mapsto> JString ''object'',
         ''properties'' \<mapsto> JSchema
           [''first'' \<mapsto> JSchema
              [''type'' \<mapsto> JString ''object'',
               ''properties'' \<mapsto> JSchema
                 [''id'' \<mapsto> JSchema [''type'' \<mapsto> JString ''integer''],
                  ''created_at'' \<mapsto> JSchema [''type'' \<mapsto> JString ''string'']],
               ''additionalProperties'' \<mapsto> JBool False,
               ''required'' \<mapsto> JStrings [''id'', ''created_at'']],
            ''second'' \<mapsto> JSchema
              [''type'' \<mapsto> JString ''object'',
               ''properties'' \<mapsto> JSchema
                 [''id'' \<mapsto> JSchema [''type'' \<mapsto> JString ''integer''],
                  ''created_at'' \<mapsto> JSchema [''type'' \<mapsto> JString ''string'']],
               ''additionalProperties'' \<mapsto> JBool False,
               ''required'' \<mapsto> JStrings [''id'', ''created_at'']]],
         ''additionalProperties'' \<mapsto> JBool False,
         ''required'' \<mapsto> JStrings [''first'', ''second'']]), {})"
    by (simp add: eval_conversion)
qed

theorem skipped_self_reference_counterexample:
  "Fields (fixtures 15) = [named ''Value'' 0 ''value'', named ''Next'' 16 ''-'']
   \<and> fixtures 16 = elemType Pointer 15
   \<and> JsonTypeOf fuel fixtures 15 {} 0 DefaultOptions
     = Some (Inr (JSchema
          [''type'' \<mapsto> JString ''object'',
           ''properties'' \<mapsto> JSchema
             [''value'' \<mapsto> JSchema [''type'' \<mapsto> JString ''string'']],
           ''additionalProperties'' \<mapsto> JBool False,
           ''required'' \<mapsto> JStrings [''value'']]), {})"
  by (simp add: eval_conversion)

text \<open>
  C9 (amended). When every chain of pointers ends (\<^verbatim>\<open>deref\<close> returns on every type),
  the struct types embedded by value in a struct are ranked below it, as they are for the
  types that Go accepts, and \<^verbatim>\<open>MaxDepth\<close> is below the largest \<^verbatim>\<open>int\<close>, \<^verbatim>\<open>JsonTypeOf\<close>
  returns for every type, visited set and depth, the types that lead back to themselves
  through struct fields, slices or arrays included.
\<close>

theorem conversion_returns:
  "(\<forall>ty. \<exists>n t'. deref n U ty = Some t')
   \<and> (\<forall>ty. \<forall>f \<in> set (Fields (U ty)).
          Kind (U ty) = Struct \<and> PkgPath f = '''' \<and> Anonymous f \<and> Kind (U (Type f)) = Struct
          \<longrightarrow> (rk (Type f) :: nat) < rk ty)
   \<and> MaxDepth opts < MaxInt64
   \<longrightarrow> (\<exists>n res. JsonTypeOf n U t V d opts = Some res)"
proof
  assume a: "(\<forall>ty. \<exists>n t'. deref n U ty = Some t')
   \<and> (\<forall>ty. \<forall>f \<in> set (Fields (U ty)).
          Kind (U ty) = Struct \<and> PkgPath f = '''' \<and> Anonymous f \<and> Kind (U (Type f)) = Struct
          \<longrightarrow> rk (Type f) < rk ty)
   \<and> MaxDepth opts < MaxInt64"
  then have dr: "\<exists>n t'. deref n U ty = Some t'" for ty by blast
  from a have rk: "Kind (U ty) = Struct \<Longrightarrow> f \<in> set (Fields (U ty)) \<Longrightarrow> PkgPath f = '''' \<Longrightarrow>
      Anonymous f \<Longrightarrow> Kind (U (Type f)) = Struct \<Longrightarrow> rk (Type f) < rk ty" for ty f
    by blast
  from a have md: "MaxDepth opts < MaxInt64" by simp
  show "\<exists>n res. JsonTypeOf n U t V d opts = Some res"
    by (rule JsonTypeOf_returns [where U = U and rk = rk, OF dr rk md]) simp_all
qed

theorem conversion_returns_witness:
  "(\<forall>ty. \<exists>n t'. deref n fixtures ty = Some t')
   \<and> MaxDepth DefaultOptions < MaxInt64
   \<and> (\<exists>n res. JsonTypeOf n fixtures 5 {} 0 DefaultOptions = Some res)
   \<and> (\<exists>n res. JsonTypeOf n fixtures 8 {} 0 DefaultOptions = Some res)
   \<and> (\<exists>n res. JsonTypeOf n slice_cycle 2 {} 0 DefaultOptions = Some res)"
proof -
  have dr: "\<forall>ty. \<exists>n t'. deref n fixtures ty = Some t'"
  proof
    fix ty
    have "deref (Suc 0) fixtures ty \<noteq> None"
      by (simp add: fixtures_def basic_def elemType_def structType_def)
    then show "\<exists>n t'. deref n fixtures ty = Some t'" by blast
  qed
  have rk: "\<forall>ty. \<forall>f \<in> set (Fields (fixtures ty)).
          Kind (fixtures ty) = Struct \<and> PkgPath f = '''' \<and> Anonymous f
          \<and> Kind (fixtures (Type f)) = Struct
          \<longrightarrow> (if Type f = 7 then 0 else Suc 0) < (if ty = 7 then 0 else Suc 0)"
    by (simp add: fixtures_def basic_def elemType_def structType_def named_def embedded_def)
  have md: "MaxDepth DefaultOptions < MaxInt64"
    by (simp add: DefaultOptions_def MaxInt64_def)
  have dr': "\<forall>ty. \<exists>n t'. deref n slice_cycle ty = Some t'"
  proof
    fix ty
    have "deref (Suc 0) slice_cycle ty \<noteq> None"
      by (simp add: slice_cycle_def basic_def elemType_def)
    then show "\<exists>n t'. deref n slice_cycle ty = Some t'" by blast
  qed
  have rk': "\<forall>ty. \<forall>f \<in> set (Fields (slice_cycle ty)).
          Kind (slice_cycle ty) = Struct \<and> PkgPath f = '''' \<and> Anonymous f
          \<and> Kind (slice_cycle (Type f)) = Struct
          \<longrightarrow> (0 :: nat) < 0"
    by (simp add: slice_cycle_def basic_def elemType_def)
  from dr md
    conversion_returns [where U = fixtures and rk = "\<lambda>t. if t = 7 then 0 else Suc 0"
      and t = 5 and V = "{}" and d = 0 and opts = DefaultOptions, THEN mp,
      OF conjI [OF dr conjI [OF rk md]]]
    conversion_returns [where U = fixtures and rk = "\<lambda>t. if t = 7 then 0 else Suc 0"
      and t = 8 and V = "{}" and d = 0 and opts = DefaultOptions, THEN mp,
      OF conjI [OF dr conjI [OF rk md]]]
    conversion_returns [where U = slice_cycle and rk = "\<lambda>t. 0"
      and t = 2 and V = "{}" and d = 0 and opts = DefaultOptions, THEN mp,
      OF conjI [OF dr' conjI [OF rk' md]]]
  show ?thesis by (intro conjI)
qed

text \<open>
  The conversion does not return on \<^verbatim>\<open>type P *P\<close>, nor on a struct with a field of that
  type, under the default options; and it does not return on \<^verbatim>\<open>type S []S\<close> when
  \<^verbatim>\<open>MaxDepth\<close> is the largest \<^verbatim>\<open>int\<close>.
\<close>

theorem conversion_never_returns_counterexample:
  "pointer_cycle 2 = elemType Pointer 2
   \<and> pointer_cycle 3 = structType [named ''P'' 2 ''p'']
   \<and> (\<forall>n. JsonTypeOf n pointer_cycle 2 {} 0 DefaultOptions = None)
   \<and> (\<forall>n. JsonTypeOf n pointer_cycle 3 {} 0 DefaultOptions = None)
   \<and> slice_cycle 2 = elemType Slice 2
   \<and> MaxDepth MaxInt64Options = 2 ^ 63 - 1
   \<and> (\<forall>n. JsonTypeOf n slice_cycle 2 {} 0 MaxInt64Options = None)"
proof (intro conjI allI)
  show "pointer_cycle 2 = elemType Pointer 2" by (simp add: pointer_cycle_def)
  show "pointer_cycle 3 = structType [named ''P'' 2 ''p'']" by (simp add: pointer_cycle_def)
  show "slice_cycle 2 = elemType Slice 2" by (simp add: slice_cycle_def)
  show "MaxDepth MaxInt64Options = 2 ^ 63 - 1" by (simp add: MaxInt64Options_def MaxInt64_def)
  show "JsonTypeOf n slice_cycle 2 {} 0 MaxInt64Options = None" for n
    using slice_cycle_never_returns [of 0 n "{}"] by (simp add: MaxInt64_def)
  have nd: "\<not> MaxDepth DefaultOptions < 0"
    by (simp add: DefaultOptions_def)
  show "JsonTypeOf n pointer_cycle 2 {} 0 DefaultOptions = None" for n
    by (rule JsonTypeOf_pointer_cycle [OF nd])
  show "JsonTypeOf n pointer_cycle 3 {} 0 DefaultOptions = None" for n
  proof (cases n)
    case 0
    then show ?thesis by simp
  next
    case (Suc m)
    have k: "Kind (pointer_cycle 3) = Struct" by (simp add: pointer_cycle_def structType_def)
    then have dr: "deref m pointer_cycle 3 = Some 3" by (simp add: deref_no_Pointer)
    have w: "wrap64 1 = 1" by (simp add: wrap64_def)
    have sp: "structProperties m pointer_cycle 3 {3} 1 DefaultOptions = None"
      by (rule structProperties_pointer_cycle) (simp add: DefaultOptions_def)
    show ?thesis
      unfolding Suc JsonTypeOf_Struct [OF nd dr k, of "{}", simplified] w sp
      by simp
  qed
qed

end
